theory Spec2Isabelle
  imports Main "HOL-Library.AList" "HOL-Library.Char_ord" "HOL-Library.List_Lexorder"
begin

section \<open>Constants of etcdops.go\<close>

definition etcdClientPort :: string where "etcdClientPort = '':2379''"
definition etcdPeerPort :: string where "etcdPeerPort = '':2380''"
definition etcdClusterToken :: string where "etcdClusterToken = ''vsphere-shared-etcd-cluster''"
definition etcdListenURL :: string where "etcdListenURL = ''0.0.0.0''"
definition etcdScheme :: string where "etcdScheme = ''http://''"
definition etcdClusterStateNew :: string where "etcdClusterStateNew = ''new''"
definition etcdClusterStateExisting :: string where "etcdClusterStateExisting = ''existing''"
definition etcdPrefixState :: string where "etcdPrefixState = ''SVOLS_stat_''"
definition etcdPrefixGRef :: string where "etcdPrefixGRef = ''SVOLS_gref_''"
definition etcdPrefixInfo :: string where "etcdPrefixInfo = ''SVOLS_info_''"
definition etcdClientCreateError :: string where
  "etcdClientCreateError = ''Failed to create etcd client''"
definition VolumeDoesNotExistError :: string where "VolumeDoesNotExistError = ''No such volume''"
definition etcdSingleRef :: string where "etcdSingleRef = ''1''"
definition etcdNoRef :: string where "etcdNoRef = ''0''"

text \<open>\<open>requestTimeout = 5 * time.Second\<close> and \<open>checkSleepDuration = time.Second\<close>,
  both counted in seconds.\<close>

definition requestTimeout :: nat where "requestTimeout = 5"
definition checkSleepDuration :: nat where "checkSleepDuration = 1"

text \<open>Modelled from the spec: the declarations of the \<open>volStatus\<close> constants
  \<open>volStateReady\<close>, \<open>volStateIntermediate\<close>, \<open>volStateMounted\<close> and \<open>volStateError\<close>
  are not among the source files; etcdops.go only converts them with \<open>string(...)\<close>. The
  spec's table of volume states names the four values, compared and stored as strings.\<close>

definition volStateReady :: string where "volStateReady = ''Ready''"
definition volStateIntermediate :: string where "volStateIntermediate = ''Intermediate''"
definition volStateMounted :: string where "volStateMounted = ''Mounted''"
definition volStateError :: string where "volStateError = ''Error''"

section \<open>Data\<close>

text \<open>A Go call either returns or panics.\<close>

datatype 'a outcome = Panic | Return 'a

text \<open>Go \<open>error\<close> values: the error an etcd or docker client call returned, an
  \<open>errors.New(msg)\<close> / \<open>fmt.Errorf(msg)\<close> with a fixed message, and an
  \<open>errors.New(fmt.Sprintf(prefix + "%v", err))\<close> that wraps a client error (the prefix is
  kept, the client's text is not modelled). A result of type \<open>error option\<close> is Go's
  \<open>error\<close>, \<open>None\<close> being \<open>nil\<close>.\<close>

datatype error = ClientError | ErrorsNew string | Wrapped string

record kvPair =
  key :: string
  val :: string

text \<open>The context handed to a store request: \<open>context.Background()\<close>,
  \<open>context.TODO()\<close> (neither carries a deadline) or
  \<open>context.WithTimeout(context.Background(), d)\<close>, \<open>d\<close> in seconds.\<close>

datatype ctx = CtxBackground | CtxTODO | CtxWithTimeout nat

datatype op = OpPut string string | OpGet string | OpDelete string

text \<open>A request to the store, as the client library receives it. \<open>Txn cmps ops\<close> is
  \<open>Txn(ctx).If(Compare(Value(k), "=", v), ...).Then(ops...).Commit()\<close>;
  \<open>GetPrefixDesc p\<close> is \<open>Get(ctx, p, WithPrefix(), WithSort(SortByKey, SortDescend))\<close>.\<close>

datatype request =
    Txn "(string \<times> string) list" "op list"
  | Do op
  | GetPrefixDesc string
  | MemberList
  | MemberRemove nat
  | MemberAdd "string list"

text \<open>The reply to a request: an error, or a response; for a transaction the response
  carries \<open>Succeeded\<close> (whether the compares held), for any other request \<open>True\<close>.\<close>

datatype reply = Failed | Replied bool

text \<open>What the plugin does to the outside, in order. A client is identified by the
  endpoint it was created for.\<close>

datatype action =
    New string
  | Close string
  | Call string ctx request reply
  | StartSMB string bool
  | StopSMB string bool
  | Spawn "string list"
  | GoWatcher

record member =
  ID :: nat
  Name :: string
  PeerURLs :: "string list"

text \<open>\<open>types.Info\<close> of the docker client, the fields of \<open>info.Swarm\<close> that the code
  reads; \<open>RemoteManagers\<close> holds each manager's \<open>Addr\<close>.\<close>

record info =
  NodeID :: string
  NodeAddr :: string
  ControlAvailable :: bool
  RemoteManagers :: "string list"

text \<open>\<open>swarm.ManagerStatus\<close> and \<open>swarm.Node\<close>; \<open>ManagerStatus\<close> is a pointer that may
  be nil.\<close>

record managerStatus =
  Leader :: bool
  Addr :: string

record node =
  nID :: string
  ManagerStatus :: "managerStatus option"

text \<open>Everything outside the plugin process: the content of the replicated store (an
  association list from key to value), the store's member list, and what the
  collaborators answer. \<open>rpcErrs\<close> says for each coming store request whether it ends in
  an error, \<open>newErrs\<close> the same for each coming \<open>etcdClient.New\<close> (an exhausted list
  means no error). \<open>dockerInfo\<close>, \<open>dockerInspect\<close> and \<open>dockerNodes\<close> are the answers of
  \<open>docker.Info\<close>, \<open>docker.NodeInspectWithRaw\<close> and \<open>docker.NodeList\<close> (\<open>None\<close> is an
  error); \<open>smbStart\<close> and \<open>smbStop\<close> are the answers of the driver's
  \<open>startSMBServer\<close> and \<open>stopSMBServer\<close>, which are not among the source files;
  \<open>ticks\<close> is the number of ticker events \<open>checkLocalEtcd\<close>'s \<open>select\<close> takes before it
  takes the timer's. \<open>trace\<close> records the actions.\<close>

record world =
  kvs :: "(string \<times> string) list"
  cluster :: "member list"
  rpcErrs :: "bool list"
  newErrs :: "bool list"
  dockerInfo :: "info option"
  dockerInspect :: "node option"
  dockerNodes :: "node list option"
  smbStart :: "string \<Rightarrow> bool"
  smbStop :: "string \<Rightarrow> bool"
  ticks :: nat
  trace :: "action list"

text \<open>\<open>etcdInfo\<close>: the \<open>driver\<close> field is the handle to the collaborators in \<open>world\<close>;
  \<open>client\<close> is nil until \<open>checkLocalEtcd\<close> caches a handle.\<close>

record etcdInfo =
  nodeID :: string
  nodeAddr :: string
  client :: "string option"

section \<open>The store and its clients\<close>

definition emit :: "action \<Rightarrow> world \<Rightarrow> world" where
  "emit a w = w\<lparr>trace := trace w @ [a]\<rparr>"

text \<open>Whether the coming store request errors.\<close>

definition rpc :: "world \<Rightarrow> bool \<times> world" where
  "rpc w = (case rpcErrs w of [] \<Rightarrow> (False, w) | b # bs \<Rightarrow> (b, w\<lparr>rpcErrs := bs\<rparr>))"

fun applyOp :: "(string \<times> string) list \<Rightarrow> op \<Rightarrow> (string \<times> string) list" where
  "applyOp s (OpPut k v) = AList.update k v s"
| "applyOp s (OpGet k) = s"
| "applyOp s (OpDelete k) = AList.delete k s"

text \<open>The range response of one operation of a transaction: for a Get, the value found
  (\<open>Count = 0\<close> is \<open>None\<close>).\<close>

fun opResponse :: "(string \<times> string) list \<Rightarrow> op \<Rightarrow> string option" where
  "opResponse s (OpGet k) = map_of s k"
| "opResponse s (OpPut k v) = None"
| "opResponse s (OpDelete k) = None"

fun putKeys :: "op list \<Rightarrow> string list" where
  "putKeys [] = []"
| "putKeys (OpPut k v # ops) = k # putKeys ops"
| "putKeys (OpGet k # ops) = putKeys ops"
| "putKeys (OpDelete k # ops) = putKeys ops"

text \<open>\<open>Commit\<close> of a transaction on client \<open>c\<close>. The store refuses a transaction that
  puts one key twice. A compare on the value of a key that does not exist fails. The
  operations are applied in one revision when every compare holds; there is no Else
  branch in this code. The result is \<open>None\<close> on an error, else \<open>Succeeded\<close> and the
  responses.\<close>

definition commit ::
  "string \<Rightarrow> ctx \<Rightarrow> (string \<times> string) list \<Rightarrow> op list \<Rightarrow> world
     \<Rightarrow> (bool \<times> string option list) option \<times> world" where
  "commit c cx cmps ops w =
     (case rpc w of
        (True, w1) \<Rightarrow> (None, emit (Call c cx (Txn cmps ops) Failed) w1)
      | (False, w1) \<Rightarrow>
          if \<not> distinct (putKeys ops)
          then (None, emit (Call c cx (Txn cmps ops) Failed) w1)
          else if list_all (\<lambda>(k, v). map_of (kvs w1) k = Some v) cmps
          then (Some (True, map (opResponse (kvs w1)) ops),
                emit (Call c cx (Txn cmps ops) (Replied True))
                  (w1\<lparr>kvs := foldl applyOp (kvs w1) ops\<rparr>))
          else (Some (False, []), emit (Call c cx (Txn cmps ops) (Replied False)) w1))"

text \<open>\<open>client.Do(ctx, op)\<close>: \<open>True\<close> when it returned an error.\<close>

definition do_op :: "string \<Rightarrow> ctx \<Rightarrow> op \<Rightarrow> world \<Rightarrow> bool \<times> world" where
  "do_op c cx x w =
     (case rpc w of
        (True, w1) \<Rightarrow> (True, emit (Call c cx (Do x) Failed) w1)
      | (False, w1) \<Rightarrow>
          (False, emit (Call c cx (Do x) (Replied True)) (w1\<lparr>kvs := applyOp (kvs w1) x\<rparr>)))"

text \<open>\<open>strings.HasPrefix\<close> and \<open>strings.TrimPrefix\<close>.\<close>

definition HasPrefix :: "string \<Rightarrow> string \<Rightarrow> bool" where
  "HasPrefix s p = (take (length p) s = p)"

definition TrimPrefix :: "string \<Rightarrow> string \<Rightarrow> string" where
  "TrimPrefix s p = (if HasPrefix s p then drop (length p) s else s)"

text \<open>The range read with a key prefix, sorted descending by key: \<open>None\<close> on an error,
  else the keys found.\<close>

definition getPrefixDesc :: "string \<Rightarrow> ctx \<Rightarrow> string \<Rightarrow> world \<Rightarrow> string list option \<times> world" where
  "getPrefixDesc c cx p w =
     (case rpc w of
        (True, w1) \<Rightarrow> (None, emit (Call c cx (GetPrefixDesc p) Failed) w1)
      | (False, w1) \<Rightarrow>
          (Some (rev (sort (filter (\<lambda>k. HasPrefix k p) (map fst (kvs w1))))),
           emit (Call c cx (GetPrefixDesc p) (Replied True)) w1))"

text \<open>\<open>addrToEtcdClient\<close>: the endpoint is the address up to its first colon, followed
  by the client port; \<open>etcdClient.New\<close> returns a client or an error.\<close>

definition addrToEtcdClient :: "string \<Rightarrow> world \<Rightarrow> string option \<times> world" where
  "addrToEtcdClient addr w =
     (let endpoint = takeWhile (\<lambda>c. c \<noteq> CHR '':'') addr @ etcdClientPort in
      case newErrs w of
        [] \<Rightarrow> (Some endpoint, emit (New endpoint) w)
      | b # bs \<Rightarrow>
          if b then (None, w\<lparr>newErrs := bs\<rparr>)
          else (Some endpoint, emit (New endpoint) (w\<lparr>newErrs := bs\<rparr>)))"

text \<open>The loop of \<open>createEtcdClient\<close> over \<open>info.Swarm.RemoteManagers\<close>: the first
  manager for which a client can be created.\<close>

fun firstClient :: "string list \<Rightarrow> world \<Rightarrow> string option \<times> world" where
  "firstClient [] w = (None, w)"
| "firstClient (m # ms) w =
     (case addrToEtcdClient m w of
        (Some c, w1) \<Rightarrow> (Some c, w1)
      | (None, w1) \<Rightarrow> firstClient ms w1)"

definition createEtcdClient :: "world \<Rightarrow> string option \<times> world" where
  "createEtcdClient w =
     (case dockerInfo w of
        None \<Rightarrow> (None, w)
      | Some i \<Rightarrow> firstClient (RemoteManagers i) w)"

section \<open>The metadata operations\<close>

text \<open>\<open>CompareAndPut\<close> works on the cached client \<open>e.client\<close>; calling \<open>Txn\<close> on a nil
  client dereferences it.\<close>

definition CompareAndPut ::
  "etcdInfo \<Rightarrow> string \<Rightarrow> string \<Rightarrow> string \<Rightarrow> world \<Rightarrow> bool outcome \<times> world" where
  "CompareAndPut e k oldVal newVal w =
     (case client e of
        None \<Rightarrow> (Panic, w)
      | Some c \<Rightarrow>
          (case commit c CtxTODO [(k, oldVal)] [OpPut k newVal] w of
             (None, w1) \<Rightarrow> (Return False, w1)
           | (Some (succeeded, rs), w1) \<Rightarrow> (Return succeeded, w1)))"

text \<open>\<open>ListVolumeName\<close> returns \<open>(volumes, err)\<close>.\<close>

definition ListVolumeName :: "world \<Rightarrow> (string list \<times> error option) outcome \<times> world" where
  "ListVolumeName w =
     (case createEtcdClient w of
        (None, w1) \<Rightarrow> (Return ([], Some (ErrorsNew etcdClientCreateError)), w1)
      | (Some c, w1) \<Rightarrow>
          (case getPrefixDesc c (CtxWithTimeout requestTimeout) etcdPrefixState w1 of
             (None, w2) \<Rightarrow> (Return ([], Some ClientError), w2)
           | (Some ks, w2) \<Rightarrow>
               (Return (map (\<lambda>k. TrimPrefix k etcdPrefixState) ks, None), w2)))"

text \<open>\<open>WriteVolMetadata\<close>. A nil client is dereferenced by \<open>Txn\<close> and by \<open>Do\<close>, and
  \<open>ops[0]\<close> of an empty batch is out of range; the deferred \<open>Close\<close> runs on every way
  out, also a panic's.\<close>

definition WriteVolMetadata :: "kvPair list \<Rightarrow> world \<Rightarrow> error option outcome \<times> world" where
  "WriteVolMetadata entries w =
     (case createEtcdClient w of
        (None, w1) \<Rightarrow> (Panic, w1)
      | (Some c, w1) \<Rightarrow>
          (let ops = map (\<lambda>elem. OpPut (key elem) (val elem)) entries in
           if length entries > 1 then
             (case commit c CtxTODO [] ops w1 of
                (None, w2) \<Rightarrow>
                  (Return (Some (Wrapped ''Failed to write metadata. Reason: '')),
                   emit (Close c) w2)
              | (Some r, w2) \<Rightarrow> (Return None, emit (Close c) w2))
           else
             (case ops of
                [] \<Rightarrow> (Panic, emit (Close c) w1)
              | x # xs \<Rightarrow>
                  (case do_op c CtxTODO x w1 of
                     (True, w2) \<Rightarrow>
                       (Return (Some (Wrapped ''Failed to write metadata. Reason: '')),
                        emit (Close c) w2)
                   | (False, w2) \<Rightarrow> (Return None, emit (Close c) w2)))))"

text \<open>The second loop of \<open>ReadVolMetadata\<close>, over the keys and the responses at the same
  index: the entries found and \<open>missedCount\<close>. The transaction answers one response per
  operation, so the index is never out of range.\<close>

fun readLoop ::
  "string list \<Rightarrow> string option list \<Rightarrow> kvPair list \<Rightarrow> nat \<Rightarrow> kvPair list \<times> nat" where
  "readLoop (elem # ks) (resp # rs) entries missedCount =
     (case resp of
        None \<Rightarrow> readLoop ks rs entries (Suc missedCount)
      | Some v \<Rightarrow> readLoop ks rs (entries @ [\<lparr>key = elem, val = v\<rparr>]) missedCount)"
| "readLoop ks rs entries missedCount = (entries, missedCount)"

text \<open>\<open>ReadVolMetadata\<close> returns \<open>(entries, err)\<close>, or panics.\<close>

definition ReadVolMetadata ::
  "string list \<Rightarrow> world \<Rightarrow> (kvPair list \<times> error option) outcome \<times> world" where
  "ReadVolMetadata keys w =
     (case createEtcdClient w of
        (None, w1) \<Rightarrow> (Panic, w1)
      | (Some c, w1) \<Rightarrow>
          (case commit c CtxTODO [] (map OpGet keys) w1 of
             (None, w2) \<Rightarrow> (Return ([], Some ClientError), emit (Close c) w2)
           | (Some (succeeded, rs), w2) \<Rightarrow>
               (case readLoop keys rs [] 0 of
                  (entries, missedCount) \<Rightarrow>
                    if missedCount = length keys
                    then (Return ([], Some (ErrorsNew VolumeDoesNotExistError)),
                          emit (Close c) w2)
                    else if missedCount > 0 then (Panic, emit (Close c) w2)
                    else (Return (entries, None), emit (Close c) w2))))"

definition DeleteVolMetadata :: "string \<Rightarrow> world \<Rightarrow> error option outcome \<times> world" where
  "DeleteVolMetadata name w =
     (case createEtcdClient w of
        (None, w1) \<Rightarrow> (Panic, w1)
      | (Some c, w1) \<Rightarrow>
          (case commit c CtxTODO []
                  [OpDelete (etcdPrefixState @ name), OpDelete (etcdPrefixGRef @ name),
                   OpDelete (etcdPrefixInfo @ name)] w1 of
             (None, w2) \<Rightarrow>
               (Return (Some (Wrapped (''Failed to delete metadata for volume '' @ name
                                        @ ''. Reason: ''))),
                emit (Close c) w2)
           | (Some r, w2) \<Rightarrow> (Return None, emit (Close c) w2)))"

section \<open>The refcount watcher\<close>

datatype eventType = EventTypePut | EventTypeDelete

record keyValue =
  Key :: string
  Value :: string

text \<open>A watch event: \<open>ev.Type\<close>, \<open>ev.Kv\<close> and \<open>ev.PrevKv\<close>, which is nil when the
  key had no previous value.\<close>

record event =
  Type :: eventType
  Kv :: keyValue
  PrevKv :: "keyValue option"

text \<open>Modelled from the spec: \<open>startSMBServer\<close> and \<open>stopSMBServer\<close> of the volume
  driver are called by the handler but are not among the source files. The spec's SMB
  controller brings the server of the volume up (or down) and returns whether it is
  operational (or gone); the answer is the world's.\<close>

definition startSMBServer :: "string \<Rightarrow> world \<Rightarrow> bool \<times> world" where
  "startSMBServer volName w = (smbStart w volName, emit (StartSMB volName (smbStart w volName)) w)"

definition stopSMBServer :: "string \<Rightarrow> world \<Rightarrow> bool \<times> world" where
  "stopSMBServer volName w = (smbStop w volName, emit (StopSMB volName (smbStop w volName)) w)"

text \<open>A \<open>CompareAndPut\<close> whose result the handler does not read.\<close>

definition CompareAndPut_ignored ::
  "etcdInfo \<Rightarrow> string \<Rightarrow> string \<Rightarrow> string \<Rightarrow> world \<Rightarrow> unit outcome \<times> world" where
  "CompareAndPut_ignored e k oldVal newVal w =
     (case CompareAndPut e k oldVal newVal w of
        (Panic, w1) \<Rightarrow> (Panic, w1)
      | (Return b, w1) \<Rightarrow> (Return (), w1))"

definition etcdEventHandler :: "etcdInfo \<Rightarrow> event \<Rightarrow> world \<Rightarrow> unit outcome \<times> world" where
  "etcdEventHandler e ev w =
     (if Type ev = EventTypePut then
        if Value (Kv ev) = etcdSingleRef
           \<and> (case PrevKv ev of None \<Rightarrow> False | Some p \<Rightarrow> Value p = etcdNoRef)
        then
          (let volName = TrimPrefix (Key (Kv ev)) etcdPrefixGRef in
           case CompareAndPut e (etcdPrefixState @ volName) volStateReady
                  volStateIntermediate w of
             (Panic, w1) \<Rightarrow> (Panic, w1)
           | (Return succeeded, w1) \<Rightarrow>
               if \<not> succeeded then (Return (), w1)
               else
                 (case startSMBServer volName w1 of
                    (True, w2) \<Rightarrow>
                      (case CompareAndPut e (etcdPrefixState @ volName)
                              volStateIntermediate volStateMounted w2 of
                         (Panic, w3) \<Rightarrow> (Panic, w3)
                       | (Return swapped, w3) \<Rightarrow>
                           if swapped = False
                           then CompareAndPut_ignored e (etcdPrefixState @ volName)
                                  volStateIntermediate volStateError w3
                           else (Return (), w3))
                  | (False, w2) \<Rightarrow>
                      CompareAndPut_ignored e (etcdPrefixState @ volName)
                        volStateIntermediate volStateError w2))
        else if Value (Kv ev) = etcdNoRef
           \<and> (case PrevKv ev of None \<Rightarrow> False | Some p \<Rightarrow> Value p = etcdSingleRef)
        then
          (let volName = TrimPrefix (Key (Kv ev)) etcdPrefixGRef in
           case CompareAndPut e (etcdPrefixState @ volName) volStateMounted
                  volStateIntermediate w of
             (Panic, w1) \<Rightarrow> (Panic, w1)
           | (Return succeeded, w1) \<Rightarrow>
               if \<not> succeeded then (Return (), w1)
               else
                 (case stopSMBServer volName w1 of
                    (True, w2) \<Rightarrow>
                      (case CompareAndPut e (etcdPrefixState @ volName)
                              volStateIntermediate volStateReady w2 of
                         (Panic, w3) \<Rightarrow> (Panic, w3)
                       | (Return swapped, w3) \<Rightarrow>
                           if swapped = False
                           then CompareAndPut_ignored e (etcdPrefixState @ volName)
                                  volStateIntermediate volStateError w3
                           else (Return (), w3))
                  | (False, w2) \<Rightarrow>
                      CompareAndPut_ignored e (etcdPrefixState @ volName)
                        volStateIntermediate volStateError w2))
        else (Return (), w)
      else (Return (), w))"

text \<open>\<open>etcdWatcher\<close> hands every event of the watch channel to the handler, in order;
  the argument is the sequence of events the channel delivers.\<close>

fun etcdWatcher :: "etcdInfo \<Rightarrow> event list \<Rightarrow> world \<Rightarrow> unit outcome \<times> world" where
  "etcdWatcher e [] w = (Return (), w)"
| "etcdWatcher e (ev # evs) w =
     (case etcdEventHandler e ev w of
        (Panic, w1) \<Rightarrow> (Panic, w1)
      | (Return u, w1) \<Rightarrow> etcdWatcher e evs w1)"

section \<open>Cluster bootstrap\<close>

text \<open>\<open>go etcdService(lines)\<close> runs \<open>/bin/etcd\<close> with the arguments.\<close>

definition etcdService :: "string list \<Rightarrow> world \<Rightarrow> world" where
  "etcdService cmd w = emit (Spawn cmd) w"

text \<open>The loop of \<open>checkLocalEtcd\<close>, by the number of ticker events left before the
  timer's event is taken: each tick tries to create a client for the local address;
  the first success caches it and starts the watcher.\<close>

fun pollLocalEtcd :: "nat \<Rightarrow> etcdInfo \<Rightarrow> world \<Rightarrow> error option \<times> etcdInfo \<times> world" where
  "pollLocalEtcd 0 e w =
     (Some (ErrorsNew ''Timeout reached; etcd cluster is not started''), e, w)"
| "pollLocalEtcd (Suc n) e w =
     (case addrToEtcdClient (nodeAddr e) w of
        (None, w1) \<Rightarrow> pollLocalEtcd n e w1
      | (Some cli, w1) \<Rightarrow> (None, e\<lparr>client := Some cli\<rparr>, emit GoWatcher w1))"

definition checkLocalEtcd :: "etcdInfo \<Rightarrow> world \<Rightarrow> error option \<times> etcdInfo \<times> world" where
  "checkLocalEtcd e w = pollLocalEtcd (ticks w) e w"

definition startEtcdCluster :: "etcdInfo \<Rightarrow> world \<Rightarrow> error option \<times> etcdInfo \<times> world" where
  "startEtcdCluster e w =
     (let lines =
        [''--name'', nodeID e,
         ''--advertise-client-urls'', etcdScheme @ nodeAddr e @ etcdClientPort,
         ''--initial-advertise-peer-urls'', etcdScheme @ nodeAddr e @ etcdPeerPort,
         ''--listen-client-urls'', etcdScheme @ etcdListenURL @ etcdClientPort,
         ''--listen-peer-urls'', etcdScheme @ etcdListenURL @ etcdPeerPort,
         ''--initial-cluster-token'', etcdClusterToken,
         ''--initial-cluster'', nodeID e @ ''='' @ etcdScheme @ nodeAddr e @ etcdPeerPort,
         ''--initial-cluster-state'', etcdClusterStateNew]
      in checkLocalEtcd e (etcdService lines w))"

text \<open>The member requests of the store. \<open>MemberList\<close> answers the members;
  \<open>MemberRemove\<close> drops the member with the ID; \<open>MemberAdd\<close> reserves a member with the
  peer URLs, an empty name and an ID of its own, and answers all members. On an error
  the client library returns a nil response.\<close>

definition memberList :: "string \<Rightarrow> world \<Rightarrow> member list option \<times> world" where
  "memberList c w =
     (case rpc w of
        (True, w1) \<Rightarrow> (None, emit (Call c CtxBackground MemberList Failed) w1)
      | (False, w1) \<Rightarrow>
          (Some (cluster w1), emit (Call c CtxBackground MemberList (Replied True)) w1))"

definition memberRemove :: "string \<Rightarrow> nat \<Rightarrow> world \<Rightarrow> bool \<times> world" where
  "memberRemove c i w =
     (case rpc w of
        (True, w1) \<Rightarrow> (True, emit (Call c CtxBackground (MemberRemove i) Failed) w1)
      | (False, w1) \<Rightarrow>
          (False, emit (Call c CtxBackground (MemberRemove i) (Replied True))
                    (w1\<lparr>cluster := filter (\<lambda>m. ID m \<noteq> i) (cluster w1)\<rparr>)))"

definition memberAdd :: "string \<Rightarrow> string list \<Rightarrow> world \<Rightarrow> member list option \<times> world" where
  "memberAdd c urls w =
     (case rpc w of
        (True, w1) \<Rightarrow> (None, emit (Call c CtxBackground (MemberAdd urls) Failed) w1)
      | (False, w1) \<Rightarrow>
          (let ms = cluster w1
                 @ [\<lparr>ID = Suc (foldr max (map ID (cluster w1)) 0), Name = [], PeerURLs = urls\<rparr>]
           in (Some ms, emit (Call c CtxBackground (MemberAdd urls) (Replied True))
                          (w1\<lparr>cluster := ms\<rparr>))))"

text \<open>The first loop of \<open>joinEtcdCluster\<close>, over the listed members: \<open>existing\<close> and the
  error of a failed \<open>MemberRemove\<close>. \<open>member.PeerURLs[0]\<close> of a member without peer URLs
  is out of range.\<close>

fun findSelf ::
  "string \<Rightarrow> string \<Rightarrow> member list \<Rightarrow> world \<Rightarrow> (bool \<times> error option) outcome \<times> world" where
  "findSelf etcd peerAddr [] w = (Return (False, None), w)"
| "findSelf etcd peerAddr (m # ms) w =
     (case PeerURLs m of
        [] \<Rightarrow> (Panic, w)
      | u # us \<Rightarrow>
          if u = peerAddr then
            if Name m = [] then (Return (True, None), w)
            else
              (case memberRemove etcd (ID m) w of
                 (True, w1) \<Rightarrow> (Return (False, Some ClientError), w1)
               | (False, w1) \<Rightarrow> (Return (False, None), w1))
          else findSelf etcd peerAddr ms w)"

text \<open>The loops that build \<open>initCluster\<close> from the started members.\<close>

fun initClusterOf :: "member list \<Rightarrow> string \<Rightarrow> string outcome" where
  "initClusterOf [] initCluster = Return initCluster"
| "initClusterOf (m # ms) initCluster =
     (if Name m \<noteq> [] then
        (case PeerURLs m of
           [] \<Rightarrow> Panic
         | u # us \<Rightarrow> initClusterOf ms (initCluster @ Name m @ ''='' @ u @ '',''))
      else initClusterOf ms initCluster)"

text \<open>\<open>joinEtcdCluster\<close>. A failure of \<open>addrToEtcdClient\<close> is only logged, and
  \<open>MemberList\<close> is then called on a nil client; the error branches of \<open>MemberList\<close> and
  \<open>MemberAdd\<close> log \<open>len(resp.Members)\<close> of the nil response. Each of the three
  dereferences nil.\<close>

definition joinEtcdCluster ::
  "etcdInfo \<Rightarrow> string \<Rightarrow> world \<Rightarrow> error option outcome \<times> etcdInfo \<times> world" where
  "joinEtcdCluster e leaderAddr w =
     (case addrToEtcdClient leaderAddr w of
        (None, w1) \<Rightarrow> (Panic, e, w1)
      | (Some etcd, w1) \<Rightarrow>
          (case memberList etcd w1 of
             (None, w2) \<Rightarrow> (Panic, e, w2)
           | (Some members, w2) \<Rightarrow>
               (let peerAddr = etcdScheme @ nodeAddr e @ etcdPeerPort in
                case findSelf etcd peerAddr members w2 of
                  (Panic, w3) \<Rightarrow> (Panic, e, w3)
                | (Return (existing, Some err), w3) \<Rightarrow> (Return (Some err), e, w3)
                | (Return (existing, None), w3) \<Rightarrow>
                    (case (if \<not> existing then
                             (case memberAdd etcd [peerAddr] w3 of
                                (None, w4) \<Rightarrow> (Panic, w4)
                              | (Some added, w4) \<Rightarrow> (initClusterOf added [], w4))
                           else (initClusterOf members [], w3)) of
                       (Panic, w4) \<Rightarrow> (Panic, e, w4)
                     | (Return initCluster, w4) \<Rightarrow>
                         (let lines =
                            [''--name'', nodeID e,
                             ''--advertise-client-urls'',
                               etcdScheme @ nodeAddr e @ etcdClientPort,
                             ''--initial-advertise-peer-urls'',
                               etcdScheme @ nodeAddr e @ etcdPeerPort,
                             ''--listen-client-urls'',
                               etcdScheme @ etcdListenURL @ etcdClientPort,
                             ''--listen-peer-urls'',
                               etcdScheme @ etcdListenURL @ etcdPeerPort,
                             ''--initial-cluster-token'', etcdClusterToken,
                             ''--initial-cluster'',
                               initCluster @ nodeID e @ ''='' @ etcdScheme @ nodeAddr e
                                 @ etcdPeerPort,
                             ''--initial-cluster-state'', etcdClusterStateExisting]
                          in case checkLocalEtcd e (etcdService lines w4) of
                               (err, e1, w5) \<Rightarrow> (Return err, e1, w5))))))"

text \<open>The loop of \<open>Init\<close> over the node list: the first node that is the leader is
  joined, and \<open>Init\<close> returns nil after the call.\<close>

fun joinLeader ::
  "node list \<Rightarrow> etcdInfo \<Rightarrow> world \<Rightarrow> error option outcome \<times> etcdInfo \<times> world" where
  "joinLeader [] e w =
     (Return (Some (ErrorsNew (''Failed to get leader for swarm manager '' @ nodeID e))), e, w)"
| "joinLeader (n # ns) e w =
     (case ManagerStatus n of
        None \<Rightarrow> joinLeader ns e w
      | Some ms \<Rightarrow>
          if Leader ms = True then
            (case joinEtcdCluster e (Addr ms) w of
               (Panic, e1, w1) \<Rightarrow> (Panic, e1, w1)
             | (Return err, e1, w1) \<Rightarrow> (Return None, e1, w1))
          else joinLeader ns e w)"

text \<open>\<open>Init\<close>. \<open>node.ManagerStatus\<close> of the inspected node is dereferenced without a
  nil check.\<close>

definition Init :: "etcdInfo \<Rightarrow> world \<Rightarrow> error option outcome \<times> etcdInfo \<times> world" where
  "Init e w =
     (case dockerInfo w of
        None \<Rightarrow> (Return (Some ClientError), e, w)
      | Some i \<Rightarrow>
          (let e1 = e\<lparr>nodeID := NodeID i\<rparr> in
           if ControlAvailable i = False then (Return None, e1, w)
           else
             (case dockerInspect w of
                None \<Rightarrow> (Return (Some ClientError), e1, w)
              | Some nd \<Rightarrow>
                  (let e2 = e1\<lparr>nodeAddr := NodeAddr i\<rparr> in
                   case ManagerStatus nd of
                     None \<Rightarrow> (Panic, e2, w)
                   | Some ms \<Rightarrow>
                       if Leader ms then
                         (case startEtcdCluster e2 w of
                            (err, e3, w1) \<Rightarrow> (Return err, e3, w1))
                       else
                         (case dockerNodes w of
                            None \<Rightarrow> (Return (Some ClientError), e2, w)
                          | Some nodes \<Rightarrow> joinLeader nodes e2 w)))))"

section \<open>Notions used to state the properties\<close>

text \<open>How a \<open>CompareAndPut\<close> of client \<open>c\<close> shows in the trace.\<close>

definition casCall :: "string \<Rightarrow> string \<Rightarrow> string \<Rightarrow> string \<Rightarrow> reply \<Rightarrow> action" where
  "casCall c k oldVal newVal r = Call c CtxTODO (Txn [(k, oldVal)] [OpPut k newVal]) r"

text \<open>Whether the \<open>i\<close>-th coming store request errors (the coming one is the 0-th).\<close>

definition fails :: "world \<Rightarrow> nat \<Rightarrow> bool" where
  "fails w i \<longleftrightarrow> i < length (rpcErrs w) \<and> rpcErrs w ! i"


subsection \<open>The state machine of a volume\<close>






text \<open>The handler's two branches have one shape: claim the transition with a
  compare-and-put from the source state to Intermediate, call the SMB controller, and
  settle in the target state or in Error. \<open>etcdEventHandler_transition\<close> below shows
  that the handler is built from them.\<close>

definition settle :: "etcdInfo \<Rightarrow> string \<Rightarrow> string \<Rightarrow> bool \<Rightarrow> world \<Rightarrow> unit outcome \<times> world" where
  "settle e k target ok w =
     (if ok then
        (case CompareAndPut e k volStateIntermediate target w of
           (Panic, w3) \<Rightarrow> (Panic, w3)
         | (Return swapped, w3) \<Rightarrow>
             if swapped = False
             then CompareAndPut_ignored e k volStateIntermediate volStateError w3
             else (Return (), w3))
      else CompareAndPut_ignored e k volStateIntermediate volStateError w)"

definition transition ::
  "etcdInfo \<Rightarrow> string \<Rightarrow> string \<Rightarrow> string \<Rightarrow> (string \<Rightarrow> world \<Rightarrow> bool \<times> world) \<Rightarrow> world
     \<Rightarrow> unit outcome \<times> world" where
  "transition e volName source target smb w =
     (case CompareAndPut e (etcdPrefixState @ volName) source volStateIntermediate w of
        (Panic, w1) \<Rightarrow> (Panic, w1)
      | (Return succeeded, w1) \<Rightarrow>
          if \<not> succeeded then (Return (), w1)
          else (case smb volName w1 of
                  (ok, w2) \<Rightarrow> settle e (etcdPrefixState @ volName) target ok w2))"


subsection \<open>Hosts racing on one boundary event\<close>

text \<open>The two boundary events, and what the handler's branch for each works with: the
  event's branch and volume name, the state the claim starts from, the state a
  successful transition ends in, and the SMB call.\<close>

datatype boundary = FirstRef | LastRef

definition boundaryOf :: "event \<Rightarrow> (boundary \<times> string) option" where
  "boundaryOf ev =
     (if Type ev = EventTypePut then
        if Value (Kv ev) = etcdSingleRef
           \<and> (case PrevKv ev of None \<Rightarrow> False | Some p \<Rightarrow> Value p = etcdNoRef)
        then Some (FirstRef, TrimPrefix (Key (Kv ev)) etcdPrefixGRef)
        else if Value (Kv ev) = etcdNoRef
           \<and> (case PrevKv ev of None \<Rightarrow> False | Some p \<Rightarrow> Value p = etcdSingleRef)
        then Some (LastRef, TrimPrefix (Key (Kv ev)) etcdPrefixGRef)
        else None
      else None)"

fun sourceState :: "boundary \<Rightarrow> string" where
  "sourceState FirstRef = volStateReady"
| "sourceState LastRef = volStateMounted"

fun targetState :: "boundary \<Rightarrow> string" where
  "targetState FirstRef = volStateMounted"
| "targetState LastRef = volStateReady"

fun smbServer :: "boundary \<Rightarrow> string \<Rightarrow> world \<Rightarrow> bool \<times> world" where
  "smbServer FirstRef = startSMBServer"
| "smbServer LastRef = stopSMBServer"

text \<open>Several hosts handle the same boundary event against the one store. Each host
  runs the handler's branch, one request or SMB call at a time: \<open>Claim\<close> is before the
  claiming compare-and-put, \<open>Serve\<close> before the SMB call, \<open>Settle\<close> before the
  compare-and-put to the target state, \<open>Park\<close> before the compare-and-put to Error;
  \<open>Lost\<close>, \<open>Finished\<close> and \<open>Crashed\<close> are the ends (the claim was lost, the branch ran
  to its end, a nil client was dereferenced).\<close>

datatype pc = Claim | Serve | Settle | Park | Lost | Finished | Crashed

fun hostStep :: "boundary \<Rightarrow> string \<Rightarrow> etcdInfo \<Rightarrow> pc \<Rightarrow> world \<Rightarrow> pc \<times> world" where
  "hostStep b v e Claim w =
     (case CompareAndPut e (etcdPrefixState @ v) (sourceState b) volStateIntermediate w of
        (Panic, w1) \<Rightarrow> (Crashed, w1)
      | (Return succeeded, w1) \<Rightarrow> (if succeeded then Serve else Lost, w1))"
| "hostStep b v e Serve w =
     (case smbServer b v w of (ok, w1) \<Rightarrow> (if ok then Settle else Park, w1))"
| "hostStep b v e Settle w =
     (case CompareAndPut e (etcdPrefixState @ v) volStateIntermediate (targetState b) w of
        (Panic, w1) \<Rightarrow> (Crashed, w1)
      | (Return swapped, w1) \<Rightarrow> (if swapped then Finished else Park, w1))"
| "hostStep b v e Park w =
     (case CompareAndPut e (etcdPrefixState @ v) volStateIntermediate volStateError w of
        (Panic, w1) \<Rightarrow> (Crashed, w1)
      | (Return swapped, w1) \<Rightarrow> (Finished, w1))"
| "hostStep b v e Lost w = (Lost, w)"
| "hostStep b v e Finished w = (Finished, w)"
| "hostStep b v e Crashed w = (Crashed, w)"

text \<open>An interleaving of the hosts' steps: the schedule names, step by step, the host
  that moves.\<close>

fun interleave ::
  "boundary \<Rightarrow> string \<Rightarrow> nat list \<Rightarrow> (etcdInfo \<times> pc) list \<times> world
     \<Rightarrow> (etcdInfo \<times> pc) list \<times> world" where
  "interleave b v [] c = c"
| "interleave b v (i # sch) (hs, w) =
     (if i < length hs then
        (case hostStep b v (fst (hs ! i)) (snd (hs ! i)) w of
           (pc', w') \<Rightarrow> interleave b v sch (hs[i := (fst (hs ! i), pc')], w'))
      else interleave b v sch (hs, w))"

text \<open>A host that has won the claim; one that has made the SMB call; one at an end.\<close>

fun won :: "pc \<Rightarrow> bool" where
  "won Serve = True" | "won Settle = True" | "won Park = True" | "won Finished = True"
| "won Claim = False" | "won Lost = False" | "won Crashed = False"

fun served :: "pc \<Rightarrow> bool" where
  "served Settle = True" | "served Park = True" | "served Finished = True"
| "served Claim = False" | "served Serve = False" | "served Lost = False" | "served Crashed = False"

fun final :: "pc \<Rightarrow> bool" where
  "final Lost = True" | "final Finished = True" | "final Crashed = True"
| "final Claim = False" | "final Serve = False" | "final Settle = False" | "final Park = False"

text \<open>The number of SMB calls in the trace.\<close>

fun isSMB :: "action \<Rightarrow> bool" where
  "isSMB (StartSMB v b) = True"
| "isSMB (StopSMB v b) = True"
| "isSMB (New c) = False"
| "isSMB (Close c) = False"
| "isSMB (Call c cx rq r) = False"
| "isSMB (Spawn l) = False"
| "isSMB GoWatcher = False"

definition smbCount :: "world \<Rightarrow> nat" where
  "smbCount w = length (filter isSMB (trace w))"

text \<open>What holds of the racing hosts at every moment (\<open>n\<close> is the number of SMB calls
  before the race), and what holds in addition when no store request fails and the
  volume was in the source state.\<close>

definition raceInv :: "boundary \<Rightarrow> string \<Rightarrow> nat \<Rightarrow> (etcdInfo \<times> pc) list \<times> world \<Rightarrow> bool" where
  "raceInv b v n c =
     (case c of (hs, w) \<Rightarrow>
        (\<forall>i<length hs. client (fst (hs ! i)) \<noteq> None) \<and>
        (\<forall>i<length hs. \<forall>j<length hs. won (snd (hs ! i)) \<longrightarrow> won (snd (hs ! j)) \<longrightarrow> i = j) \<and>
        ((\<exists>i<length hs. won (snd (hs ! i))) \<longrightarrow>
           map_of (kvs w) (etcdPrefixState @ v) \<noteq> Some (sourceState b)) \<and>
        smbCount w = n + (if \<exists>i<length hs. served (snd (hs ! i)) then 1 else 0))"

definition raceLive :: "boundary \<Rightarrow> string \<Rightarrow> (etcdInfo \<times> pc) list \<times> world \<Rightarrow> bool" where
  "raceLive b v c =
     (case c of (hs, w) \<Rightarrow>
        rpcErrs w = [] \<and>
        (\<forall>i<length hs. snd (hs ! i) \<noteq> Crashed) \<and>
        (((\<forall>i<length hs. snd (hs ! i) = Claim) \<and>
            map_of (kvs w) (etcdPrefixState @ v) = Some (sourceState b)) \<or>
         (\<exists>i<length hs. won (snd (hs ! i)))))"

text \<open>The number of steps a host has left at most.\<close>

fun rank :: "pc \<Rightarrow> nat" where
  "rank Claim = 4" | "rank Serve = 3" | "rank Settle = 2" | "rank Park = 1"
| "rank Lost = 0" | "rank Finished = 0" | "rank Crashed = 0"

subsection \<open>Joining the cluster\<close>

text \<open>The initial-cluster string of the members that have a name, each as
  \<open>name=peerURL,\<close>.\<close>

definition initialCluster :: "member list \<Rightarrow> string" where
  "initialCluster ms =
     concat (map (\<lambda>m. Name m @ ''='' @ hd (PeerURLs m) @ '','') (filter (\<lambda>m. Name m \<noteq> []) ms))"



subsection \<open>Clients and contexts of the metadata operations\<close>



text \<open>A world where the docker daemon names a manager and no client creation and no
  store request fails.\<close>

definition healthy :: "world \<Rightarrow> bool" where
  "healthy w \<longleftrightarrow>
     newErrs w = [] \<and> rpcErrs w = [] \<and>
     (case dockerInfo w of None \<Rightarrow> False | Some i \<Rightarrow> RemoteManagers i \<noteq> [])"

subsection \<open>A sample world\<close>

text \<open>One volume \<open>v1\<close> in state Ready with no reference, a docker daemon that names one
  manager, and collaborators that never fail.\<close>

definition world0 :: world where
  "world0 =
     \<lparr>kvs = [(''SVOLS_stat_v1'', ''Ready''), (''SVOLS_gref_v1'', ''0''),
             (''SVOLS_info_v1'', ''blob'')],
      cluster = [], rpcErrs = [], newErrs = [],
      dockerInfo = Some \<lparr>NodeID = ''n1'', NodeAddr = ''10.0.0.1'', ControlAvailable = True,
                         RemoteManagers = [''10.0.0.1:2377'']\<rparr>,
      dockerInspect = None, dockerNodes = None,
      smbStart = (\<lambda>v. True), smbStop = (\<lambda>v. True), ticks = 5, trace = []\<rparr>"

definition e0 :: etcdInfo where
  "e0 = \<lparr>nodeID = ''n1'', nodeAddr = ''10.0.0.1'', client = Some ''10.0.0.1:2379''\<rparr>"

text \<open>The global refcount of \<open>v1\<close> going from 0 to 1, and from 1 to 0.\<close>

definition ev01 :: event where
  "ev01 = \<lparr>Type = EventTypePut, Kv = \<lparr>Key = ''SVOLS_gref_v1'', Value = ''1''\<rparr>,
           PrevKv = Some \<lparr>Key = ''SVOLS_gref_v1'', Value = ''0''\<rparr>\<rparr>"

definition ev10 :: event where
  "ev10 = \<lparr>Type = EventTypePut, Kv = \<lparr>Key = ''SVOLS_gref_v1'', Value = ''0''\<rparr>,
           PrevKv = Some \<lparr>Key = ''SVOLS_gref_v1'', Value = ''1''\<rparr>\<rparr>"

text \<open>The same world with \<open>v1\<close> parked in Error, and an event that takes the refcount
  from 1 to 2.\<close>

definition worldE :: world where
  "worldE = world0\<lparr>kvs := [(''SVOLS_stat_v1'', ''Error''), (''SVOLS_gref_v1'', ''0''),
                           (''SVOLS_info_v1'', ''blob'')]\<rparr>"


text \<open>A second host.\<close>

definition hostB :: etcdInfo where
  "hostB = \<lparr>nodeID = ''n2'', nodeAddr = ''10.0.0.2'', client = Some ''10.0.0.2:2379''\<rparr>"

text \<open>The sample world with \<open>v1\<close> mounted and one reference.\<close>

definition worldM :: world where
  "worldM = world0\<lparr>kvs := [(''SVOLS_stat_v1'', ''Mounted''), (''SVOLS_gref_v1'', ''1''),
                           (''SVOLS_info_v1'', ''blob'')]\<rparr>"

text \<open>The sample world on a node whose docker daemon names no remote manager.\<close>

definition worldAlone :: world where
  "worldAlone =
     world0\<lparr>dockerInfo := Some \<lparr>NodeID = ''n3'', NodeAddr = ''10.0.0.3'',
                                   ControlAvailable = False, RemoteManagers = []\<rparr>\<rparr>"

text \<open>A manager that is not the leader and whose member record, with its name, is
  still in the member list; in \<open>worldR\<close> the leader's store answers the member list and
  then fails the request that removes the record.\<close>

definition worldF :: world where
  "worldF =
     \<lparr>kvs = [],
      cluster = [\<lparr>ID = 1, Name = ''n1'', PeerURLs = [''http://10.0.0.1:2380'']\<rparr>,
                 \<lparr>ID = 2, Name = ''n2'', PeerURLs = [''http://10.0.0.2:2380'']\<rparr>],
      rpcErrs = [], newErrs = [],
      dockerInfo = Some \<lparr>NodeID = ''n2'', NodeAddr = ''10.0.0.2'', ControlAvailable = True,
                         RemoteManagers = [''10.0.0.1:2377'', ''10.0.0.2:2377'']\<rparr>,
      dockerInspect = Some \<lparr>nID = ''n2'',
                            ManagerStatus = Some \<lparr>Leader = False, Addr = ''10.0.0.2:2377''\<rparr>\<rparr>,
      dockerNodes = Some [\<lparr>nID = ''n1'',
                           ManagerStatus = Some \<lparr>Leader = True, Addr = ''10.0.0.1:2377''\<rparr>\<rparr>,
                          \<lparr>nID = ''n2'',
                           ManagerStatus = Some \<lparr>Leader = False, Addr = ''10.0.0.2:2377''\<rparr>\<rparr>],
      smbStart = (\<lambda>v. True), smbStop = (\<lambda>v. True), ticks = 5, trace = []\<rparr>"

definition eF :: etcdInfo where
  "eF = \<lparr>nodeID = ''n2'', nodeAddr = ''10.0.0.2'', client = None\<rparr>"

definition worldR :: world where
  "worldR = worldF\<lparr>rpcErrs := [False, True]\<rparr>"

definition eNew :: etcdInfo where
  "eNew = \<lparr>nodeID = [], nodeAddr = [], client = None\<rparr>"

text \<open>The sample world where the next two store requests fail.\<close>

definition worldFail :: world where
  "worldFail = world0\<lparr>rpcErrs := [True, True]\<rparr>"

section \<open>Basic facts\<close>

lemma emit_fields [simp]:
  "kvs (emit a w) = kvs w" "rpcErrs (emit a w) = rpcErrs w" "newErrs (emit a w) = newErrs w"
  "cluster (emit a w) = cluster w" "dockerInfo (emit a w) = dockerInfo w"
  "smbStart (emit a w) = smbStart w" "smbStop (emit a w) = smbStop w"
  "trace (emit a w) = trace w @ [a]"
  by (simp_all add: emit_def)

lemma rpc_frame:
  "rpc w = (b, w1) \<Longrightarrow> kvs w1 = kvs w \<and> trace w1 = trace w \<and> smbStart w1 = smbStart w \<and> smbStop w1 = smbStop w"
  by (auto simp: rpc_def split: list.splits)

lemma addrToEtcdClient_frame:
  "addrToEtcdClient a w = (r, w1) \<Longrightarrow> kvs w1 = kvs w \<and> rpcErrs w1 = rpcErrs w \<and> dockerInfo w1 = dockerInfo w \<and> cluster w1 = cluster w"
  by (auto simp: addrToEtcdClient_def Let_def split: list.splits if_splits)

lemma firstClient_frame:
  "firstClient ms w = (r, w1) \<Longrightarrow> kvs w1 = kvs w \<and> rpcErrs w1 = rpcErrs w \<and> dockerInfo w1 = dockerInfo w \<and> cluster w1 = cluster w"
proof (induction ms arbitrary: w)
  case Nil
  then show ?case by simp
next
  case (Cons m ms)
  obtain r0 w0 where a: "addrToEtcdClient m w = (r0, w0)" by (cases "addrToEtcdClient m w")
  note f = addrToEtcdClient_frame [OF a]
  show ?case
  proof (cases r0)
    case None
    with Cons.prems a have "firstClient ms w0 = (r, w1)" by simp
    from Cons.IH [OF this] f show ?thesis by simp
  next
    case (Some c)
    with Cons.prems a have "w1 = w0" by simp
    with f show ?thesis by simp
  qed
qed

lemma createEtcdClient_frame:
  "createEtcdClient w = (r, w1) \<Longrightarrow> kvs w1 = kvs w \<and> rpcErrs w1 = rpcErrs w \<and> dockerInfo w1 = dockerInfo w \<and> cluster w1 = cluster w"
  by (auto simp: createEtcdClient_def split: option.splits dest: firstClient_frame)

lemma readLoop_map:
  "readLoop ks (map f ks) acc m =
     (acc @ map (\<lambda>k. \<lparr>key = k, val = the (f k)\<rparr>) (filter (\<lambda>k. f k \<noteq> None) ks),
      m + length (filter (\<lambda>k. f k = None) ks))"
  by (induction ks arbitrary: acc m) (auto split: option.splits)

lemma length_filter_all: "length (filter P xs) = length xs \<longleftrightarrow> (\<forall>x\<in>set xs. P x)"
proof (induction xs)
  case Nil
  then show ?case by simp
next
  case (Cons x xs)
  have "length (filter P xs) \<le> length xs" by simp
  then have "length (filter P xs) \<noteq> Suc (length xs)" by arith
  with Cons show ?case by auto
qed

lemma putKeys_gets [simp]: "putKeys (map OpGet ks) = []"
  by (induction ks) auto

lemma foldl_gets [simp]: "foldl applyOp s (map OpGet ks) = s"
  by (induction ks) auto

lemma responses_gets [simp]: "map (opResponse s) (map OpGet ks) = map (map_of s) ks"
  by simp

lemma world0_fields:
  "kvs world0 = [(''SVOLS_stat_v1'', ''Ready''), (''SVOLS_gref_v1'', ''0''), (''SVOLS_info_v1'', ''blob'')]"
  "rpcErrs world0 = []" "newErrs world0 = []"
  "dockerInfo world0 = Some \<lparr>NodeID = ''n1'', NodeAddr = ''10.0.0.1'', ControlAvailable = True,
                            RemoteManagers = [''10.0.0.1:2377'']\<rparr>"
  "trace world0 = []"
  by (simp_all add: world0_def)

lemma world0_client:
  "createEtcdClient world0 = (Some ''10.0.0.1:2379'', emit (New ''10.0.0.1:2379'') world0)"
  by (simp add: createEtcdClient_def world0_fields addrToEtcdClient_def Let_def etcdClientPort_def)

lemma world0_smb: "smbStart world0 = (\<lambda>v. True)" "smbStop world0 = (\<lambda>v. True)"
  by (simp_all add: world0_def)

lemma fails_drop: "rpcErrs w1 = drop 1 (rpcErrs w) \<Longrightarrow> fails w1 i = fails w (Suc i)"
  by (auto simp: fails_def)

lemma fails_same: "rpcErrs w1 = rpcErrs w \<Longrightarrow> fails w1 i = fails w i"
  by (simp add: fails_def)

lemma rpc_fails: "rpc w = (fails w 0, snd (rpc w)) \<and> rpcErrs (snd (rpc w)) = drop 1 (rpcErrs w)"
  by (auto simp: rpc_def fails_def split: list.splits)

text \<open>What one \<open>CompareAndPut\<close> on a cached client returns and does, from the world
  it starts in.\<close>

lemma CompareAndPut_exact:
  assumes c: "client e = Some c"
  shows "\<exists>w1.
    CompareAndPut e k a b w = (Return (\<not> fails w 0 \<and> map_of (kvs w) k = Some a), w1) \<and>
    trace w1 = trace w @
      [casCall c k a b (if fails w 0 then Failed else Replied (map_of (kvs w) k = Some a))] \<and>
    kvs w1 = (if \<not> fails w 0 \<and> map_of (kvs w) k = Some a then AList.update k b (kvs w)
              else kvs w) \<and>
    rpcErrs w1 = drop 1 (rpcErrs w) \<and> smbStart w1 = smbStart w \<and> smbStop w1 = smbStop w"
proof -
  obtain w0 where r: "rpc w = (fails w 0, w0)" "rpcErrs w0 = drop 1 (rpcErrs w)"
    using rpc_fails [of w] by blast
  note f = rpc_frame [OF r(1)]
  show ?thesis
    using c r f by (auto simp: CompareAndPut_def commit_def casCall_def)
qed

lemma CompareAndPut_step:
  assumes c: "client e = Some c"
  shows "\<exists>r w1.
    CompareAndPut e k a b w = (Return (r = Replied True), w1) \<and>
    trace w1 = trace w @ [casCall c k a b r] \<and>
    (r = Replied True \<longrightarrow> map_of (kvs w) k = Some a \<and> kvs w1 = AList.update k b (kvs w)) \<and>
    (r \<noteq> Replied True \<longrightarrow> kvs w1 = kvs w) \<and>
    smbStart w1 = smbStart w \<and> smbStop w1 = smbStop w"
proof -
  obtain err w0 where r: "rpc w = (err, w0)" by (cases "rpc w")
  note f = rpc_frame [OF r]
  show ?thesis
  proof (cases err)
    case True
    show ?thesis
      by (rule exI [of _ Failed], rule exI [of _ "emit (casCall c k a b Failed) w0"])
         (use c r True f in \<open>simp add: CompareAndPut_def commit_def casCall_def\<close>)
  next
    case False
    show ?thesis
    proof (cases "map_of (kvs w) k = Some a")
      case True
      show ?thesis
        by (rule exI [of _ "Replied True"],
            rule exI [of _ "emit (casCall c k a b (Replied True)) (w0\<lparr>kvs := AList.update k b (kvs w0)\<rparr>)"])
           (use c r \<open>\<not> err\<close> True f in \<open>simp add: CompareAndPut_def commit_def casCall_def\<close>)
    next
      case no: False
      show ?thesis
        by (rule exI [of _ "Replied False"], rule exI [of _ "emit (casCall c k a b (Replied False)) w0"])
           (use c r \<open>\<not> err\<close> no f in \<open>simp add: CompareAndPut_def commit_def casCall_def\<close>)
    qed
  qed
qed

lemma TrimPrefix_append [simp]: "TrimPrefix (p @ v) p = v"
  by (simp add: TrimPrefix_def HasPrefix_def)





lemma CompareAndPut_effect:
  assumes "CompareAndPut e k a b w = (res, w1)"
  shows "smbStart w1 = smbStart w \<and> smbStop w1 = smbStop w \<and>
     (if res = Return True
      then map_of (kvs w) k = Some a \<and> kvs w1 = AList.update k b (kvs w)
      else kvs w1 = kvs w)"
proof (cases "client e")
  case None
  with assms show ?thesis by (auto simp: CompareAndPut_def)
next
  case (Some c)
  from CompareAndPut_step [OF Some, of k a b w] assms show ?thesis by auto
qed








lemma settle_case:
  "(case smb v w1 of
      (True, w2) \<Rightarrow>
        (case CompareAndPut e k volStateIntermediate target w2 of
           (Panic, w3) \<Rightarrow> (Panic, w3)
         | (Return swapped, w3) \<Rightarrow>
             if swapped = False
             then CompareAndPut_ignored e k volStateIntermediate volStateError w3
             else (Return (), w3))
    | (False, w2) \<Rightarrow> CompareAndPut_ignored e k volStateIntermediate volStateError w2)
   = (case smb v w1 of (ok, w2) \<Rightarrow> settle e k target ok w2)"
  by (cases "smb v w1") (simp add: settle_def split: bool.split)

lemma etcdEventHandler_transition:
  "etcdEventHandler e ev w =
     (if Type ev = EventTypePut then
        if Value (Kv ev) = etcdSingleRef
           \<and> (case PrevKv ev of None \<Rightarrow> False | Some p \<Rightarrow> Value p = etcdNoRef)
        then transition e (TrimPrefix (Key (Kv ev)) etcdPrefixGRef) volStateReady
               volStateMounted startSMBServer w
        else if Value (Kv ev) = etcdNoRef
           \<and> (case PrevKv ev of None \<Rightarrow> False | Some p \<Rightarrow> Value p = etcdSingleRef)
        then transition e (TrimPrefix (Key (Kv ev)) etcdPrefixGRef) volStateMounted
               volStateReady stopSMBServer w
        else (Return (), w)
      else (Return (), w))"
  unfolding etcdEventHandler_def transition_def Let_def settle_case
  by (rule refl)






lemma states_distinct [simp]:
  "volStateReady \<noteq> volStateError" "volStateMounted \<noteq> volStateError"
  "volStateIntermediate \<noteq> volStateError" "volStateReady \<noteq> volStateMounted"
  "volStateReady \<noteq> volStateIntermediate" "volStateMounted \<noteq> volStateIntermediate"
  by (simp_all add: volStateReady_def volStateError_def volStateMounted_def
      volStateIntermediate_def)








section \<open>The handler on a boundary event\<close>

text \<open>C1. Let the handler, with its cached client, take a Put event that records GREF:V
  going from "0" to "1". It first runs CompareAndPut(STATE:V, Ready, Intermediate), which
  returns true exactly when the store request does not fail and STATE:V is Ready. When
  it returns false the handler returns with this one request made, no SMB call and the
  store unchanged. When it returns true the handler calls SMB Start for V. After a
  successful Start it runs CompareAndPut(STATE:V, Intermediate, Mounted), which leaves
  STATE:V in Mounted, and, only if that request fails, CompareAndPut(STATE:V,
  Intermediate, Error); after a failed Start it runs CompareAndPut(STATE:V, Intermediate,
  Error). The compare-and-put to Error leaves STATE:V in Error when its request is
  answered and in Intermediate when it fails. Nothing else is done. (The handler runs
  on its own: nothing else writes the store between its requests.)\<close>

theorem handler_first_ref:
  assumes put: "Type ev = EventTypePut"
    and val: "Value (Kv ev) = ''1''"
    and prev: "PrevKv ev = Some p" "Value p = ''0''"
    and key: "Key (Kv ev) = etcdPrefixGRef @ V"
    and cl: "client e = Some c"
  shows "\<exists>w'. etcdEventHandler e ev w = (Return (), w') \<and>
     (if fails w 0 \<or> map_of (kvs w) (etcdPrefixState @ V) \<noteq> Some volStateReady then
        trace w' = trace w @
          [casCall c (etcdPrefixState @ V) volStateReady volStateIntermediate
             (if fails w 0 then Failed else Replied False)] \<and>
        kvs w' = kvs w
      else if \<not> smbStart w V then
        trace w' = trace w @
          [casCall c (etcdPrefixState @ V) volStateReady volStateIntermediate (Replied True),
           StartSMB V False,
           casCall c (etcdPrefixState @ V) volStateIntermediate volStateError
             (if fails w 1 then Failed else Replied True)] \<and>
        kvs w' = AList.update (etcdPrefixState @ V)
                   (if fails w 1 then volStateIntermediate else volStateError) (kvs w)
      else if \<not> fails w 1 then
        trace w' = trace w @
          [casCall c (etcdPrefixState @ V) volStateReady volStateIntermediate (Replied True),
           StartSMB V True,
           casCall c (etcdPrefixState @ V) volStateIntermediate volStateMounted (Replied True)] \<and>
        kvs w' = AList.update (etcdPrefixState @ V) volStateMounted (kvs w)
      else
        trace w' = trace w @
          [casCall c (etcdPrefixState @ V) volStateReady volStateIntermediate (Replied True),
           StartSMB V True,
           casCall c (etcdPrefixState @ V) volStateIntermediate volStateMounted Failed,
           casCall c (etcdPrefixState @ V) volStateIntermediate volStateError
             (if fails w 2 then Failed else Replied True)] \<and>
        kvs w' = AList.update (etcdPrefixState @ V)
                   (if fails w 2 then volStateIntermediate else volStateError) (kvs w))"
proof -
  let ?k = "etcdPrefixState @ V"
  let ?won = "\<not> fails w 0 \<and> map_of (kvs w) ?k = Some volStateReady"
  have sel: "Value (Kv ev) = etcdSingleRef \<and>
      (case PrevKv ev of None \<Rightarrow> False | Some p \<Rightarrow> Value p = etcdNoRef)"
    using val prev by (simp add: etcdSingleRef_def etcdNoRef_def)
  obtain w1 where s1:
      "CompareAndPut e ?k volStateReady volStateIntermediate w = (Return ?won, w1)"
      "trace w1 = trace w @ [casCall c ?k volStateReady volStateIntermediate
          (if fails w 0 then Failed else Replied (map_of (kvs w) ?k = Some volStateReady))]"
      "kvs w1 = (if ?won then AList.update ?k volStateIntermediate (kvs w) else kvs w)"
      "rpcErrs w1 = drop 1 (rpcErrs w)" "smbStart w1 = smbStart w"
    using CompareAndPut_exact [OF cl, of ?k volStateReady volStateIntermediate w] by blast
  show ?thesis
  proof (cases ?won)
    case False
    then show ?thesis
      using put sel key s1 by (auto simp: etcdEventHandler_def)
  next
    case won: True
    obtain w2 where s2: "startSMBServer V w1 = (smbStart w V, w2)"
       "trace w2 = trace w1 @ [StartSMB V (smbStart w V)]" "kvs w2 = kvs w1"
       "rpcErrs w2 = rpcErrs w1"
      using s1(5) by (simp add: startSMBServer_def)
    have k2: "map_of (kvs w2) ?k = Some volStateIntermediate"
      "kvs w2 = AList.update ?k volStateIntermediate (kvs w)"
      using s1(3) s2(3) won by (simp_all add: update_conv')
    have f2: "fails w2 0 = fails w 1" "fails w2 1 = fails w 2"
      using fails_drop [OF s1(4), of 0] fails_drop [OF s1(4), of 1] fails_same [OF s2(4)]
      by (simp_all add: numeral_2_eq_2)
    show ?thesis
    proof (cases "smbStart w V")
      case False
      obtain w3 where s3:
        "CompareAndPut e ?k volStateIntermediate volStateError w2 = (Return (\<not> fails w 1), w3)"
        "trace w3 = trace w2 @ [casCall c ?k volStateIntermediate volStateError
            (if fails w 1 then Failed else Replied True)]"
        "kvs w3 = AList.update ?k (if fails w 1 then volStateIntermediate else volStateError) (kvs w)"
        using CompareAndPut_exact [OF cl, of ?k volStateIntermediate volStateError w2] k2 f2
        by auto
      show ?thesis
        using put sel key s1(1,2) won s2(1,2) False s3
        by (simp add: etcdEventHandler_def CompareAndPut_ignored_def)
    next
      case True
      obtain w3 where s3:
        "CompareAndPut e ?k volStateIntermediate volStateMounted w2 = (Return (\<not> fails w 1), w3)"
        "trace w3 = trace w2 @ [casCall c ?k volStateIntermediate volStateMounted
            (if fails w 1 then Failed else Replied True)]"
        "kvs w3 = AList.update ?k (if fails w 1 then volStateIntermediate else volStateMounted) (kvs w)"
        "rpcErrs w3 = drop 1 (rpcErrs w2)"
        using CompareAndPut_exact [OF cl, of ?k volStateIntermediate volStateMounted w2] k2 f2
        by auto
      show ?thesis
      proof (cases "fails w 1")
        case False
        then show ?thesis
          using put sel key s1(1,2) won s2(1,2) \<open>smbStart w V\<close> s3(1,2,3)
          by (simp add: etcdEventHandler_def)
      next
        case True
        have k3: "map_of (kvs w3) ?k = Some volStateIntermediate"
          "kvs w3 = AList.update ?k volStateIntermediate (kvs w)"
          using s3(3) True by (simp_all add: update_conv')
        have f3: "fails w3 0 = fails w 2"
          using fails_drop [OF s3(4), of 0] f2 by simp
        obtain w4 where s4:
          "CompareAndPut e ?k volStateIntermediate volStateError w3 = (Return (\<not> fails w 2), w4)"
          "trace w4 = trace w3 @ [casCall c ?k volStateIntermediate volStateError
              (if fails w 2 then Failed else Replied True)]"
          "kvs w4 = AList.update ?k (if fails w 2 then volStateIntermediate else volStateError) (kvs w)"
          using CompareAndPut_exact [OF cl, of ?k volStateIntermediate volStateError w3] k3 f3
          by auto
        show ?thesis
          using put sel key s1(1,2) won s2(1,2) \<open>smbStart w V\<close> s3(1,2) True s4
          by (simp add: etcdEventHandler_def CompareAndPut_ignored_def)
      qed
    qed
  qed
qed

theorem handler_first_ref_witness:
  "\<exists>w'. etcdEventHandler e0 ev01 world0 = (Return (), w') \<and>
     trace w' =
       [casCall ''10.0.0.1:2379'' ''SVOLS_stat_v1'' ''Ready'' ''Intermediate'' (Replied True),
        StartSMB ''v1'' True,
        casCall ''10.0.0.1:2379'' ''SVOLS_stat_v1'' ''Intermediate'' ''Mounted'' (Replied True)] \<and>
     kvs w' = [(''SVOLS_stat_v1'', ''Mounted''), (''SVOLS_gref_v1'', ''0''),
               (''SVOLS_info_v1'', ''blob'')]"
  using handler_first_ref [where p = "\<lparr>Key = ''SVOLS_gref_v1'', Value = ''0''\<rparr>"
      and ev = ev01 and e = e0 and c = "''10.0.0.1:2379''" and V = "''v1''" and w = world0]
  by (simp add: ev01_def e0_def etcdPrefixGRef_def etcdPrefixState_def fails_def world0_fields
      world0_smb volStateReady_def volStateIntermediate_def volStateMounted_def)

text \<open>C2. Let the handler, with its cached client, take a Put event that records GREF:V
  going from "1" to "0". It first runs CompareAndPut(STATE:V, Mounted, Intermediate), which
  returns true exactly when the store request does not fail and STATE:V is Mounted. When
  it returns false the handler returns with this one request made, no SMB call and the
  store unchanged. When it returns true the handler calls SMB Stop for V. After a
  successful Stop it runs CompareAndPut(STATE:V, Intermediate, Ready), which leaves
  STATE:V in Ready, and, only if that request fails, CompareAndPut(STATE:V, Intermediate,
  Error); after a failed Stop it runs CompareAndPut(STATE:V, Intermediate, Error). The
  compare-and-put to Error leaves STATE:V in Error when its request is answered and in
  Intermediate when it fails. Nothing else is done. (The handler runs on its own:
  nothing else writes the store between its requests.)\<close>

theorem handler_last_ref:
  assumes put: "Type ev = EventTypePut"
    and val: "Value (Kv ev) = ''0''"
    and prev: "PrevKv ev = Some p" "Value p = ''1''"
    and key: "Key (Kv ev) = etcdPrefixGRef @ V"
    and cl: "client e = Some c"
  shows "\<exists>w'. etcdEventHandler e ev w = (Return (), w') \<and>
     (if fails w 0 \<or> map_of (kvs w) (etcdPrefixState @ V) \<noteq> Some volStateMounted then
        trace w' = trace w @
          [casCall c (etcdPrefixState @ V) volStateMounted volStateIntermediate
             (if fails w 0 then Failed else Replied False)] \<and>
        kvs w' = kvs w
      else if \<not> smbStop w V then
        trace w' = trace w @
          [casCall c (etcdPrefixState @ V) volStateMounted volStateIntermediate (Replied True),
           StopSMB V False,
           casCall c (etcdPrefixState @ V) volStateIntermediate volStateError
             (if fails w 1 then Failed else Replied True)] \<and>
        kvs w' = AList.update (etcdPrefixState @ V)
                   (if fails w 1 then volStateIntermediate else volStateError) (kvs w)
      else if \<not> fails w 1 then
        trace w' = trace w @
          [casCall c (etcdPrefixState @ V) volStateMounted volStateIntermediate (Replied True),
           StopSMB V True,
           casCall c (etcdPrefixState @ V) volStateIntermediate volStateReady (Replied True)] \<and>
        kvs w' = AList.update (etcdPrefixState @ V) volStateReady (kvs w)
      else
        trace w' = trace w @
          [casCall c (etcdPrefixState @ V) volStateMounted volStateIntermediate (Replied True),
           StopSMB V True,
           casCall c (etcdPrefixState @ V) volStateIntermediate volStateReady Failed,
           casCall c (etcdPrefixState @ V) volStateIntermediate volStateError
             (if fails w 2 then Failed else Replied True)] \<and>
        kvs w' = AList.update (etcdPrefixState @ V)
                   (if fails w 2 then volStateIntermediate else volStateError) (kvs w))"
proof -
  let ?k = "etcdPrefixState @ V"
  let ?won = "\<not> fails w 0 \<and> map_of (kvs w) ?k = Some volStateMounted"
  have sel: "Value (Kv ev) = etcdNoRef \<and>
      (case PrevKv ev of None \<Rightarrow> False | Some p \<Rightarrow> Value p = etcdSingleRef)"
    "Value (Kv ev) \<noteq> etcdSingleRef"
    using val prev by (simp_all add: etcdSingleRef_def etcdNoRef_def)
  obtain w1 where s1:
      "CompareAndPut e ?k volStateMounted volStateIntermediate w = (Return ?won, w1)"
      "trace w1 = trace w @ [casCall c ?k volStateMounted volStateIntermediate
          (if fails w 0 then Failed else Replied (map_of (kvs w) ?k = Some volStateMounted))]"
      "kvs w1 = (if ?won then AList.update ?k volStateIntermediate (kvs w) else kvs w)"
      "rpcErrs w1 = drop 1 (rpcErrs w)" "smbStop w1 = smbStop w"
    using CompareAndPut_exact [OF cl, of ?k volStateMounted volStateIntermediate w] by blast
  show ?thesis
  proof (cases ?won)
    case False
    then show ?thesis
      using put sel key s1 by (auto simp: etcdEventHandler_def)
  next
    case won: True
    obtain w2 where s2: "stopSMBServer V w1 = (smbStop w V, w2)"
       "trace w2 = trace w1 @ [StopSMB V (smbStop w V)]" "kvs w2 = kvs w1"
       "rpcErrs w2 = rpcErrs w1"
      using s1(5) by (simp add: stopSMBServer_def)
    have k2: "map_of (kvs w2) ?k = Some volStateIntermediate"
      "kvs w2 = AList.update ?k volStateIntermediate (kvs w)"
      using s1(3) s2(3) won by (simp_all add: update_conv')
    have f2: "fails w2 0 = fails w 1" "fails w2 1 = fails w 2"
      using fails_drop [OF s1(4), of 0] fails_drop [OF s1(4), of 1] fails_same [OF s2(4)]
      by (simp_all add: numeral_2_eq_2)
    show ?thesis
    proof (cases "smbStop w V")
      case False
      obtain w3 where s3:
        "CompareAndPut e ?k volStateIntermediate volStateError w2 = (Return (\<not> fails w 1), w3)"
        "trace w3 = trace w2 @ [casCall c ?k volStateIntermediate volStateError
            (if fails w 1 then Failed else Replied True)]"
        "kvs w3 = AList.update ?k (if fails w 1 then volStateIntermediate else volStateError) (kvs w)"
        using CompareAndPut_exact [OF cl, of ?k volStateIntermediate volStateError w2] k2 f2
        by auto
      show ?thesis
        using put sel key s1(1,2) won s2(1,2) False s3
        by (simp add: etcdEventHandler_def CompareAndPut_ignored_def)
    next
      case True
      obtain w3 where s3:
        "CompareAndPut e ?k volStateIntermediate volStateReady w2 = (Return (\<not> fails w 1), w3)"
        "trace w3 = trace w2 @ [casCall c ?k volStateIntermediate volStateReady
            (if fails w 1 then Failed else Replied True)]"
        "kvs w3 = AList.update ?k (if fails w 1 then volStateIntermediate else volStateReady) (kvs w)"
        "rpcErrs w3 = drop 1 (rpcErrs w2)"
        using CompareAndPut_exact [OF cl, of ?k volStateIntermediate volStateReady w2] k2 f2
        by auto
      show ?thesis
      proof (cases "fails w 1")
        case False
        then show ?thesis
          using put sel key s1(1,2) won s2(1,2) \<open>smbStop w V\<close> s3(1,2,3)
          by (simp add: etcdEventHandler_def)
      next
        case True
        have k3: "map_of (kvs w3) ?k = Some volStateIntermediate"
          "kvs w3 = AList.update ?k volStateIntermediate (kvs w)"
          using s3(3) True by (simp_all add: update_conv')
        have f3: "fails w3 0 = fails w 2"
          using fails_drop [OF s3(4), of 0] f2 by simp
        obtain w4 where s4:
          "CompareAndPut e ?k volStateIntermediate volStateError w3 = (Return (\<not> fails w 2), w4)"
          "trace w4 = trace w3 @ [casCall c ?k volStateIntermediate volStateError
              (if fails w 2 then Failed else Replied True)]"
          "kvs w4 = AList.update ?k (if fails w 2 then volStateIntermediate else volStateError) (kvs w)"
          using CompareAndPut_exact [OF cl, of ?k volStateIntermediate volStateError w3] k3 f3
          by auto
        show ?thesis
          using put sel key s1(1,2) won s2(1,2) \<open>smbStop w V\<close> s3(1,2) True s4
          by (simp add: etcdEventHandler_def CompareAndPut_ignored_def)
      qed
    qed
  qed
qed

theorem handler_last_ref_witness:
  "\<exists>w'. etcdEventHandler e0 ev10 worldM = (Return (), w') \<and>
     trace w' =
       [casCall ''10.0.0.1:2379'' ''SVOLS_stat_v1'' ''Mounted'' ''Intermediate'' (Replied True),
        StopSMB ''v1'' True,
        casCall ''10.0.0.1:2379'' ''SVOLS_stat_v1'' ''Intermediate'' ''Ready'' (Replied True)] \<and>
     kvs w' = [(''SVOLS_stat_v1'', ''Ready''), (''SVOLS_gref_v1'', ''1''),
               (''SVOLS_info_v1'', ''blob'')]"
  using handler_last_ref [where p = "\<lparr>Key = ''SVOLS_gref_v1'', Value = ''1''\<rparr>"
      and ev = ev10 and e = e0 and c = "''10.0.0.1:2379''" and V = "''v1''" and w = worldM]
  by (simp add: ev10_def e0_def etcdPrefixGRef_def etcdPrefixState_def fails_def worldM_def
      world0_fields world0_smb volStateReady_def volStateIntermediate_def volStateMounted_def)

section \<open>Reading metadata\<close>

lemma ReadVolMetadata_counts:
  assumes cl: "createEtcdClient w = (Some c, w1)"
    and ok: "\<not> fst (rpc w1)"
  shows "fst (ReadVolMetadata keys w) =
     (if length (filter (\<lambda>k. map_of (kvs w) k = None) keys) = length keys
      then Return ([], Some (ErrorsNew VolumeDoesNotExistError))
      else if 0 < length (filter (\<lambda>k. map_of (kvs w) k = None) keys) then Panic
      else Return (map (\<lambda>k. \<lparr>key = k, val = the (map_of (kvs w) k)\<rparr>)
                     (filter (\<lambda>k. map_of (kvs w) k \<noteq> None) keys), None))"
proof -
  obtain w2 where r: "rpc w1 = (False, w2)" using ok by (cases "rpc w1") auto
  have k1: "kvs w1 = kvs w" using createEtcdClient_frame [OF cl] by simp
  have k2: "kvs w2 = kvs w" using rpc_frame [OF r] k1 by simp
  obtain w3 where c: "commit c CtxTODO [] (map OpGet keys) w1 =
      (Some (True, map (map_of (kvs w)) keys), w3)"
    using r k2 by (simp add: commit_def)
  show ?thesis
    by (simp add: ReadVolMetadata_def cl c readLoop_map del: responses_gets)
qed

text \<open>C5. When the store client is created and the read transaction commits,
  \<open>ReadVolMetadata\<close> returns the error "No such volume" if every requested key is absent
  from the store, panics (and returns no partial data) if some but not all requested keys
  are absent, and otherwise returns one entry per requested key, in order, each with the
  stored value.\<close>

theorem ReadVolMetadata_cases:
  assumes cl: "createEtcdClient w = (Some c, w1)"
    and ok: "\<not> fst (rpc w1)"
  shows "fst (ReadVolMetadata keys w) =
     (if \<forall>k\<in>set keys. map_of (kvs w) k = None
      then Return ([], Some (ErrorsNew VolumeDoesNotExistError))
      else if \<exists>k\<in>set keys. map_of (kvs w) k = None then Panic
      else Return (map (\<lambda>k. \<lparr>key = k, val = the (map_of (kvs w) k)\<rparr>) keys, None))"
proof -
  let ?f = "map_of (kvs w)"
  let ?miss = "length (filter (\<lambda>k. ?f k = None) keys)"
  have all: "?miss = length keys \<longleftrightarrow> (\<forall>k\<in>set keys. ?f k = None)"
    by (rule length_filter_all)
  have some: "0 < ?miss \<longleftrightarrow> (\<exists>k\<in>set keys. ?f k = None)"
    by (auto simp: filter_empty_conv)
  have none: "\<not> (\<exists>k\<in>set keys. ?f k = None) \<Longrightarrow> filter (\<lambda>k. ?f k \<noteq> None) keys = keys"
    by (auto simp: filter_id_conv)
  show ?thesis
    unfolding ReadVolMetadata_counts [OF cl ok] using all some none by simp
qed

theorem ReadVolMetadata_cases_witness:
  "fst (ReadVolMetadata [''SVOLS_stat_v1'', ''SVOLS_gref_v1''] world0) =
     Return ([\<lparr>key = ''SVOLS_stat_v1'', val = ''Ready''\<rparr>, \<lparr>key = ''SVOLS_gref_v1'', val = ''0''\<rparr>], None)"
proof -
  have ok: "\<not> fst (rpc (emit (New ''10.0.0.1:2379'') world0))"
    by (simp add: rpc_def world0_fields)
  show ?thesis
    using ReadVolMetadata_cases [OF world0_client ok, of "[''SVOLS_stat_v1'', ''SVOLS_gref_v1'']"]
    by (simp add: world0_fields)
qed


lemma addrToEtcdClient_trace:
  "addrToEtcdClient a w = (r, w1) \<Longrightarrow>
     trace w1 = trace w @ (case r of None \<Rightarrow> [] | Some c \<Rightarrow> [New c])"
  by (auto simp: addrToEtcdClient_def Let_def split: list.splits if_splits)



lemma commit_trace:
  "commit c cx cmps ops w = (r, w1) \<Longrightarrow>
     \<exists>rp. trace w1 = trace w @ [Call c cx (Txn cmps ops) rp] \<and> (r \<noteq> None \<longleftrightarrow> rp \<noteq> Failed)"
  by (auto simp: commit_def split: prod.splits bool.splits if_splits dest: rpc_frame)

lemma do_op_trace:
  "do_op c cx x w = (err, w1) \<Longrightarrow>
     \<exists>rp. trace w1 = trace w @ [Call c cx (Do x) rp] \<and> (err \<longleftrightarrow> rp = Failed)"
  by (auto simp: do_op_def split: prod.splits bool.splits if_splits dest: rpc_frame)

lemma WriteVolMetadata_empty: "fst (WriteVolMetadata [] w) = Panic"
  by (simp add: WriteVolMetadata_def split: prod.splits option.splits)

lemma WriteVolMetadata_many:
  assumes cl: "createEtcdClient w = (Some c, w1)" and len: "length entries > 1"
  shows "\<exists>rp w2. WriteVolMetadata entries w =
           (Return (if rp = Failed then Some (Wrapped ''Failed to write metadata. Reason: '') else None), w2)
         \<and> trace w2 = trace w1 @ [Call c CtxTODO (Txn [] (map (\<lambda>elem. OpPut (key elem) (val elem)) entries)) rp, Close c]"
proof -
  let ?ops = "map (\<lambda>elem. OpPut (key elem) (val elem)) entries"
  obtain r w2 where c: "commit c CtxTODO [] ?ops w1 = (r, w2)" by (cases "commit c CtxTODO [] ?ops w1")
  from commit_trace [OF c] obtain rp where
    t: "trace w2 = trace w1 @ [Call c CtxTODO (Txn [] ?ops) rp]" and r: "r \<noteq> None \<longleftrightarrow> rp \<noteq> Failed"
    by blast
  show ?thesis
    using cl len c t r
    by (intro exI [of _ rp] exI [of _ "emit (Close c) w2"])
       (cases r; simp add: WriteVolMetadata_def)
qed

lemma WriteVolMetadata_one:
  assumes cl: "createEtcdClient w = (Some c, w1)"
  shows "\<exists>rp w2. WriteVolMetadata [x] w =
           (Return (if rp = Failed then Some (Wrapped ''Failed to write metadata. Reason: '') else None), w2)
         \<and> trace w2 = trace w1 @ [Call c CtxTODO (Do (OpPut (key x) (val x))) rp, Close c]
         \<and> (rp \<noteq> Failed \<longrightarrow> kvs w2 = AList.update (key x) (val x) (kvs w))"
proof -
  let ?x = "OpPut (key x) (val x)"
  obtain err w2 where c: "do_op c CtxTODO ?x w1 = (err, w2)" by (cases "do_op c CtxTODO ?x w1")
  from do_op_trace [OF c] obtain rp where
    t: "trace w2 = trace w1 @ [Call c CtxTODO (Do ?x) rp]" and r: "err \<longleftrightarrow> rp = Failed"
    by blast
  have k: "\<not> err \<longrightarrow> kvs w2 = AList.update (key x) (val x) (kvs w)"
    using c createEtcdClient_frame [OF cl]
    by (auto simp: do_op_def split: prod.splits bool.splits if_splits dest: rpc_frame)
  show ?thesis
    using cl c t r k
    by (intro exI [of _ rp] exI [of _ "emit (Close c) w2"])
       (cases err; simp add: WriteVolMetadata_def)
qed

lemma DeleteVolMetadata_run:
  assumes cl: "createEtcdClient w = (Some c, w1)"
  shows "\<exists>rp w2. DeleteVolMetadata name w =
           (Return (if rp = Failed
                    then Some (Wrapped (''Failed to delete metadata for volume '' @ name @ ''. Reason: ''))
                    else None), w2)
         \<and> trace w2 = trace w1 @ [Call c CtxTODO (Txn [] [OpDelete (etcdPrefixState @ name),
               OpDelete (etcdPrefixGRef @ name), OpDelete (etcdPrefixInfo @ name)]) rp, Close c]
         \<and> rp = (if fst (rpc w1) then Failed else Replied True)
         \<and> (rp \<noteq> Failed \<longrightarrow>
              kvs w2 = AList.delete (etcdPrefixInfo @ name) (AList.delete (etcdPrefixGRef @ name)
                         (AList.delete (etcdPrefixState @ name) (kvs w))))"
proof -
  let ?ops = "[OpDelete (etcdPrefixState @ name), OpDelete (etcdPrefixGRef @ name), OpDelete (etcdPrefixInfo @ name)]"
  obtain err w0 where r: "rpc w1 = (err, w0)" by (cases "rpc w1")
  note f = rpc_frame [OF r] createEtcdClient_frame [OF cl]
  show ?thesis
  proof (cases err)
    case True
    show ?thesis
      by (intro exI [of _ Failed] exI [of _ "emit (Close c) (emit (Call c CtxTODO (Txn [] ?ops) Failed) w0)"])
         (use cl r True f in \<open>simp add: DeleteVolMetadata_def commit_def\<close>)
  next
    case False
    show ?thesis
      by (intro exI [of _ "Replied True"]
            exI [of _ "emit (Close c) (emit (Call c CtxTODO (Txn [] ?ops) (Replied True)) (w0\<lparr>kvs := foldl applyOp (kvs w0) ?ops\<rparr>))"])
         (use cl r False f in \<open>simp add: DeleteVolMetadata_def commit_def\<close>)
  qed
qed


lemma DeleteVolMetadata_absent:
  assumes d: "DeleteVolMetadata name w = (Return None, w')"
  shows "map_of (kvs w') (etcdPrefixState @ name) = None \<and>
         map_of (kvs w') (etcdPrefixGRef @ name) = None \<and>
         map_of (kvs w') (etcdPrefixInfo @ name) = None"
proof -
  obtain r w1 where cl: "createEtcdClient w = (r, w1)" by (cases "createEtcdClient w")
  with d obtain c where r: "r = Some c"
    by (cases r) (auto simp: DeleteVolMetadata_def)
  from DeleteVolMetadata_run [OF cl [unfolded r], of name] d
  have "kvs w' = AList.delete (etcdPrefixInfo @ name) (AList.delete (etcdPrefixGRef @ name)
                         (AList.delete (etcdPrefixState @ name) (kvs w)))"
    by (auto split: if_splits)
  then show ?thesis by (simp add: delete_conv')
qed

lemma healthy_emit [simp]: "healthy (emit a w) = healthy w"
  by (simp add: healthy_def)

lemma healthy_kvs [simp]: "healthy (w\<lparr>kvs := s\<rparr>) = healthy w"
  by (simp add: healthy_def)

lemma healthy_rpc: "healthy w \<Longrightarrow> rpc w = (False, w)"
  by (simp add: healthy_def rpc_def)

lemma healthy_client:
  assumes "healthy w"
  shows "\<exists>c. createEtcdClient w = (Some c, emit (New c) w)"
proof -
  from assms obtain i m ms where "dockerInfo w = Some i" "RemoteManagers i = m # ms" "newErrs w = []"
    by (auto simp: healthy_def split: option.splits list.splits simp: neq_Nil_conv)
  then show ?thesis
    by (simp add: createEtcdClient_def addrToEtcdClient_def Let_def)
qed

lemma healthy_write:
  assumes h: "healthy w" and ne: "entries \<noteq> []" and d: "distinct (map key entries)"
  shows "fst (WriteVolMetadata entries w) = Return None \<and> healthy (snd (WriteVolMetadata entries w))"
proof -
  from healthy_client [OF h] obtain c where c: "createEtcdClient w = (Some c, emit (New c) w)" ..
  have r: "rpc (emit (New c) w) = (False, emit (New c) w)" using h by (simp add: healthy_rpc)
  have pk: "putKeys (map (\<lambda>elem. OpPut (key elem) (val elem)) entries) = map key entries"
    by (induction entries) auto
  show ?thesis
  proof (cases "length entries > 1")
    case True
    then show ?thesis using c r d h
      by (simp add: WriteVolMetadata_def commit_def pk Let_def)
  next
    case False
    with ne obtain x where "entries = [x]" by (cases entries) auto
    then show ?thesis using c r h
      by (simp add: WriteVolMetadata_def do_op_def)
  qed
qed

lemma healthy_delete:
  assumes h: "healthy w"
  shows "fst (DeleteVolMetadata V w) = Return None \<and> healthy (snd (DeleteVolMetadata V w))"
proof -
  from healthy_client [OF h] obtain c where c: "createEtcdClient w = (Some c, emit (New c) w)" ..
  have r: "rpc (emit (New c) w) = (False, emit (New c) w)" using h by (simp add: healthy_rpc)
  show ?thesis using c r h
    by (simp add: DeleteVolMetadata_def commit_def)
qed

lemma healthy_world0: "healthy world0"
  by (simp add: healthy_def world0_fields)







section \<open>What the watcher may do to the state of a volume\<close>



section \<open>Writing, reading and deleting metadata\<close>

text \<open>\<open>WriteVolMetadata\<close> panics in two cases and no other: on an empty list of
  entries, and when no client could be created.\<close>

lemma WriteVolMetadata_panics:
  "fst (WriteVolMetadata entries w) = Panic \<longleftrightarrow> entries = [] \<or> fst (createEtcdClient w) = None"
proof (cases "createEtcdClient w")
  case (Pair r w1)
  show ?thesis
  proof (cases r)
    case None
    with Pair show ?thesis by (simp add: WriteVolMetadata_def)
  next
    case (Some c)
    show ?thesis
    proof (cases entries)
      case Nil
      then show ?thesis by (simp add: WriteVolMetadata_empty)
    next
      case (Cons x xs)
      show ?thesis
      proof (cases "length entries > 1")
        case True
        from WriteVolMetadata_many [OF Pair [unfolded Some] True] Pair Some Cons
        show ?thesis by auto
      next
        case False
        with Cons have "entries = [x]" by simp
        with WriteVolMetadata_one [OF Pair [unfolded Some], of x] Pair Some
        show ?thesis by auto
      qed
    qed
  qed
qed

text \<open>C10 fails on a call with one entry on a node whose docker daemon names no remote
  manager: \<open>createEtcdClient\<close> returns nil, and \<open>WriteVolMetadata\<close>, which uses the client
  without a check, panics with no request issued; it returns neither success nor an
  error. \<open>ListVolumeName\<close> checks the client for nil and returns the error "Failed to
  create etcd client" in the same world.\<close>

theorem WriteVolMetadata_no_client:
  "createEtcdClient worldAlone = (None, worldAlone) \<and>
   WriteVolMetadata [\<lparr>key = ''SVOLS_stat_v2'', val = ''Ready''\<rparr>] worldAlone = (Panic, worldAlone) \<and>
   ListVolumeName worldAlone =
     (Return ([], Some (ErrorsNew ''Failed to create etcd client'')), worldAlone)"
proof -
  have c: "createEtcdClient worldAlone = (None, worldAlone)"
    by (simp add: createEtcdClient_def worldAlone_def)
  then show ?thesis
    by (simp add: WriteVolMetadata_def ListVolumeName_def etcdClientCreateError_def)
qed

text \<open>C6. After a successful \<open>WriteVolMetadata\<close> of \<open>(K, v)\<close>, \<open>ReadVolMetadata([K])\<close>
  returns \<open>[(K, v)]\<close>. After a \<open>WriteVolMetadata\<close> of the three keys of \<open>V\<close> and a
  successful \<open>DeleteVolMetadata(V)\<close>, \<open>ReadVolMetadata\<close> of the three keys returns "No such
  volume". \<open>DeleteVolMetadata\<close> deletes the three keys in one transaction and succeeds
  whatever the store holds. (The reads are those whose client is created and whose
  transaction commits.)\<close>

theorem write_read_delete:
  "(WriteVolMetadata [\<lparr>key = K, val = v\<rparr>] w = (Return None, w') \<longrightarrow>
      createEtcdClient w' = (Some c, w1) \<longrightarrow> \<not> fst (rpc w1) \<longrightarrow>
      fst (ReadVolMetadata [K] w') = Return ([\<lparr>key = K, val = v\<rparr>], None))
   \<and> (WriteVolMetadata [\<lparr>key = etcdPrefixState @ V, val = a\<rparr>, \<lparr>key = etcdPrefixGRef @ V, val = b\<rparr>,
                          \<lparr>key = etcdPrefixInfo @ V, val = d\<rparr>] u = (Return None, u1) \<longrightarrow>
      DeleteVolMetadata V u1 = (Return None, u2) \<longrightarrow>
      createEtcdClient u2 = (Some c', u3) \<longrightarrow> \<not> fst (rpc u3) \<longrightarrow>
      fst (ReadVolMetadata [etcdPrefixState @ V, etcdPrefixGRef @ V, etcdPrefixInfo @ V] u2) =
        Return ([], Some (ErrorsNew VolumeDoesNotExistError)))
   \<and> (createEtcdClient t = (Some c'', t1) \<longrightarrow> \<not> fst (rpc t1) \<longrightarrow>
      (\<exists>t2. DeleteVolMetadata V t = (Return None, t2) \<and>
         trace t2 = trace t1 @
           [Call c'' CtxTODO (Txn [] [OpDelete (etcdPrefixState @ V), OpDelete (etcdPrefixGRef @ V),
                                      OpDelete (etcdPrefixInfo @ V)]) (Replied True),
            Close c'']))"
proof (intro conjI impI)
  assume wr: "WriteVolMetadata [\<lparr>key = K, val = v\<rparr>] w = (Return None, w')"
    and cl: "createEtcdClient w' = (Some c, w1)" and ok: "\<not> fst (rpc w1)"
  obtain r0 w0 where c0: "createEtcdClient w = (r0, w0)" by (cases "createEtcdClient w")
  with wr obtain c0 where r0: "r0 = Some c0"
    by (cases r0) (auto simp: WriteVolMetadata_def)
  from WriteVolMetadata_one [OF c0 [unfolded r0], of "\<lparr>key = K, val = v\<rparr>"] wr
  have "kvs w' = AList.update K v (kvs w)" by (auto split: if_splits)
  then have "map_of (kvs w') K = Some v" by (simp add: update_conv')
  with ReadVolMetadata_counts [OF cl ok, of "[K]"]
  show "fst (ReadVolMetadata [K] w') = Return ([\<lparr>key = K, val = v\<rparr>], None)" by simp
next
  assume dl: "DeleteVolMetadata V u1 = (Return None, u2)"
    and cl: "createEtcdClient u2 = (Some c', u3)" and ok: "\<not> fst (rpc u3)"
  from DeleteVolMetadata_absent [OF dl] ReadVolMetadata_counts [OF cl ok,
      of "[etcdPrefixState @ V, etcdPrefixGRef @ V, etcdPrefixInfo @ V]"]
  show "fst (ReadVolMetadata [etcdPrefixState @ V, etcdPrefixGRef @ V, etcdPrefixInfo @ V] u2) =
        Return ([], Some (ErrorsNew VolumeDoesNotExistError))" by simp
next
  assume cl: "createEtcdClient t = (Some c'', t1)" and ok: "\<not> fst (rpc t1)"
  from DeleteVolMetadata_run [OF cl, of V] ok
  show "\<exists>t2. DeleteVolMetadata V t = (Return None, t2) \<and>
         trace t2 = trace t1 @
           [Call c'' CtxTODO (Txn [] [OpDelete (etcdPrefixState @ V), OpDelete (etcdPrefixGRef @ V),
                                      OpDelete (etcdPrefixInfo @ V)]) (Replied True),
            Close c'']"
    by (auto split: if_splits)
qed


theorem write_read_delete_witness:
  "fst (ReadVolMetadata [''SVOLS_stat_v2'']
          (snd (WriteVolMetadata [\<lparr>key = ''SVOLS_stat_v2'', val = ''Ready''\<rparr>] world0))) =
     Return ([\<lparr>key = ''SVOLS_stat_v2'', val = ''Ready''\<rparr>], None)
   \<and> fst (ReadVolMetadata [etcdPrefixState @ ''v2'', etcdPrefixGRef @ ''v2'', etcdPrefixInfo @ ''v2'']
            (snd (DeleteVolMetadata ''v2''
               (snd (WriteVolMetadata
                  [\<lparr>key = etcdPrefixState @ ''v2'', val = ''Ready''\<rparr>,
                   \<lparr>key = etcdPrefixGRef @ ''v2'', val = ''0''\<rparr>,
                   \<lparr>key = etcdPrefixInfo @ ''v2'', val = ''blob''\<rparr>] world0))))) =
        Return ([], Some (ErrorsNew VolumeDoesNotExistError))
   \<and> (\<exists>t2. DeleteVolMetadata ''v2'' world0 = (Return None, t2) \<and>
         trace t2 = trace (emit (New ''10.0.0.1:2379'') world0) @
           [Call ''10.0.0.1:2379'' CtxTODO
              (Txn [] [OpDelete (etcdPrefixState @ ''v2''), OpDelete (etcdPrefixGRef @ ''v2''),
                       OpDelete (etcdPrefixInfo @ ''v2'')]) (Replied True),
            Close ''10.0.0.1:2379''])"
proof -
  let ?one = "[\<lparr>key = ''SVOLS_stat_v2'', val = ''Ready''\<rparr>]"
  let ?three = "[\<lparr>key = etcdPrefixState @ ''v2'', val = ''Ready''\<rparr>,
                 \<lparr>key = etcdPrefixGRef @ ''v2'', val = ''0''\<rparr>,
                 \<lparr>key = etcdPrefixInfo @ ''v2'', val = ''blob''\<rparr>]"
  let ?w1 = "snd (WriteVolMetadata ?one world0)"
  let ?u1 = "snd (WriteVolMetadata ?three world0)"
  let ?u2 = "snd (DeleteVolMetadata ''v2'' ?u1)"
  have a: "WriteVolMetadata ?one world0 = (Return None, ?w1)" "healthy ?w1"
    using healthy_write [OF healthy_world0, of ?one] by (simp_all add: prod_eq_iff)
  have b: "WriteVolMetadata ?three world0 = (Return None, ?u1)" "healthy ?u1"
    using healthy_write [OF healthy_world0, of ?three]
    by (simp_all add: prod_eq_iff etcdPrefixState_def etcdPrefixGRef_def etcdPrefixInfo_def)
  have c: "DeleteVolMetadata ''v2'' ?u1 = (Return None, ?u2)" "healthy ?u2"
    using healthy_delete [OF b(2), of "''v2''"] by (simp_all add: prod_eq_iff)
  from healthy_client [OF a(2)] obtain c1 where c1: "createEtcdClient ?w1 = (Some c1, emit (New c1) ?w1)" ..
  from healthy_client [OF c(2)] obtain c2 where c2: "createEtcdClient ?u2 = (Some c2, emit (New c2) ?u2)" ..
  have r1: "\<not> fst (rpc (emit (New c1) ?w1))" using a(2) by (simp add: healthy_rpc)
  have r2: "\<not> fst (rpc (emit (New c2) ?u2))" using c(2) by (simp add: healthy_rpc)
  have r3: "\<not> fst (rpc (emit (New ''10.0.0.1:2379'') world0))"
    using healthy_world0 by (simp add: healthy_rpc)
  show ?thesis
    using write_read_delete [of "''SVOLS_stat_v2''" "''Ready''" world0 ?w1 c1 "emit (New c1) ?w1"
        "''v2''" "''Ready''" "''0''" "''blob''" world0 ?u1 ?u2 c2 "emit (New c2) ?u2"
        world0 "''10.0.0.1:2379''" "emit (New ''10.0.0.1:2379'') world0"]
      a b c c1 c2 r1 r2 r3 world0_client
    by simp
qed


section \<open>Clients and deadlines of the metadata operations\<close>





section \<open>Joining the cluster\<close>



lemma initialCluster_reserved [simp]:
  "initialCluster (ms @ [\<lparr>ID = i, Name = [], PeerURLs = us\<rparr>]) = initialCluster ms"
  by (simp add: initialCluster_def)


lemma pollLocalEtcd_result:
  "pollLocalEtcd n e w = (err, e', w') \<Longrightarrow>
     (err = Some (ErrorsNew ''Timeout reached; etcd cluster is not started'') \<and>
        trace w' = trace w \<and> e' = e) \<or>
     (err = None \<and> (\<exists>cli. trace w' = trace w @ [New cli, GoWatcher] \<and> e' = e\<lparr>client := Some cli\<rparr>))"
proof (induction n arbitrary: w)
  case 0
  then show ?case by simp
next
  case (Suc n)
  obtain r w1 where a: "addrToEtcdClient (nodeAddr e) w = (r, w1)"
    by (cases "addrToEtcdClient (nodeAddr e) w")
  note t = addrToEtcdClient_trace [OF a]
  show ?case
  proof (cases r)
    case None
    with Suc.prems a have "pollLocalEtcd n e w1 = (err, e', w')" by simp
    from Suc.IH [OF this] t None show ?thesis by simp
  next
    case (Some cli)
    with Suc.prems a t show ?thesis by auto
  qed
qed










section \<open>What Init returns\<close>

text \<open>On the leader, \<open>Init\<close> returns what \<open>checkLocalEtcd\<close> returns: the timeout error,
  with no client cached and no watcher started, or nil, with the client cached and the
  watcher started.\<close>

lemma Init_leader_result:
  assumes "dockerInfo w = Some i" "ControlAvailable i" "dockerInspect w = Some nd"
    "ManagerStatus nd = Some ms" "Leader ms"
  shows "\<exists>err e' w'. Init e w = (Return err, e', w') \<and>
     ((err = Some (ErrorsNew ''Timeout reached; etcd cluster is not started'') \<and>
         client e' = client e \<and> GoWatcher \<notin> set (drop (length (trace w)) (trace w'))) \<or>
      (err = None \<and> (\<exists>cli rest. client e' = Some cli \<and> trace w' = trace w @ rest @ [New cli, GoWatcher])))"
proof -
  let ?e2 = "e\<lparr>nodeID := NodeID i, nodeAddr := NodeAddr i\<rparr>"
  obtain err e' w' where s: "startEtcdCluster ?e2 w = (err, e', w')"
    by (cases "startEtcdCluster ?e2 w")
  then obtain lines where p: "pollLocalEtcd (ticks w) ?e2 (emit (Spawn lines) w) = (err, e', w')"
    by (auto simp: startEtcdCluster_def checkLocalEtcd_def etcdService_def Let_def emit_def)
  have i: "Init e w = (Return err, e', w')"
    using assms s by (simp add: Init_def Let_def)
  from pollLocalEtcd_result [OF p] show ?thesis
    unfolding i by (auto intro: exI [of _ "[Spawn lines]"])
qed

text \<open>On a manager that is not the leader, the only error \<open>Init\<close> can return after the
  node list is read is that there is no leader: whatever \<open>joinEtcdCluster\<close> returns,
  \<open>Init\<close> returns nil.\<close>

lemma joinLeader_result:
  "joinLeader ns e w = (r, e', w') \<Longrightarrow>
     r = Panic \<or> r = Return None \<or>
     r = Return (Some (ErrorsNew (''Failed to get leader for swarm manager '' @ nodeID e)))"
proof (induction ns)
  case Nil
  then show ?case by auto
next
  case (Cons n ns)
  show ?case
  proof (cases "ManagerStatus n")
    case None
    with Cons show ?thesis by simp
  next
    case (Some ms)
    show ?thesis
    proof (cases "Leader ms")
      case False
      with Cons Some show ?thesis by simp
    next
      case True
      obtain r1 e1 w1 where j: "joinEtcdCluster e (Addr ms) w = (r1, e1, w1)"
        by (cases "joinEtcdCluster e (Addr ms) w")
      with Cons.prems Some True show ?thesis by (cases r1) auto
    qed
  qed
qed

lemma Init_follower_result:
  assumes "dockerInfo w = Some i" "ControlAvailable i" "dockerInspect w = Some nd"
    "ManagerStatus nd = Some ms" "\<not> Leader ms" "dockerNodes w = Some ns"
  shows "fst (Init e w) = Panic \<or> fst (Init e w) = Return None \<or>
     fst (Init e w) =
       Return (Some (ErrorsNew (''Failed to get leader for swarm manager '' @ NodeID i)))"
proof -
  let ?e2 = "e\<lparr>nodeID := NodeID i, nodeAddr := NodeAddr i\<rparr>"
  obtain r e' w' where j: "joinLeader ns ?e2 w = (r, e', w')" by (cases "joinLeader ns ?e2 w")
  have "Init e w = (r, e', w')" using assms j by (simp add: Init_def Let_def)
  with joinLeader_result [OF j] show ?thesis by auto
qed

text \<open>C8 fails on the path of a manager that is not the leader: \<open>Init\<close> drops what
  \<open>joinEtcdCluster\<close> returns. Here the node's member record is still listed with its
  name and the request that removes it fails: \<open>joinEtcdCluster\<close> returns the error
  before it starts the local store, and \<open>Init\<close> returns nil with no local store started,
  no client cached and no watcher started.\<close>

theorem Init_follower_drops_error:
  "fst (Init eNew worldR) = Return None \<and>
   fst (snd (Init eNew worldR)) = \<lparr>nodeID = ''n2'', nodeAddr = ''10.0.0.2'', client = None\<rparr> \<and>
   trace (snd (snd (Init eNew worldR))) =
     [New ''10.0.0.1:2379'',
      Call ''10.0.0.1:2379'' CtxBackground MemberList (Replied True),
      Call ''10.0.0.1:2379'' CtxBackground (MemberRemove 2) Failed] \<and>
   fst (joinEtcdCluster eF ''10.0.0.1:2377'' worldR) = Return (Some ClientError)"
proof -
  have j: "joinEtcdCluster eF ''10.0.0.1:2377'' worldR =
      (Return (Some ClientError), eF,
       worldR\<lparr>rpcErrs := [],
              trace := [New ''10.0.0.1:2379'',
                        Call ''10.0.0.1:2379'' CtxBackground MemberList (Replied True),
                        Call ''10.0.0.1:2379'' CtxBackground (MemberRemove 2) Failed]\<rparr>)"
    by (simp add: joinEtcdCluster_def eF_def worldR_def worldF_def Let_def addrToEtcdClient_def
        memberList_def memberRemove_def rpc_def emit_def etcdClientPort_def etcdScheme_def
        etcdPeerPort_def)
  have e: "eNew\<lparr>nodeID := ''n2'', nodeAddr := ''10.0.0.2''\<rparr> = eF"
    by (simp add: eNew_def eF_def)
  have i: "Init eNew worldR = joinLeader
      [\<lparr>nID = ''n1'', ManagerStatus = Some \<lparr>Leader = True, Addr = ''10.0.0.1:2377''\<rparr>\<rparr>,
       \<lparr>nID = ''n2'', ManagerStatus = Some \<lparr>Leader = False, Addr = ''10.0.0.2:2377''\<rparr>\<rparr>]
      eF worldR"
    by (simp add: Init_def Let_def e) (simp add: worldR_def worldF_def e)
  show ?thesis
    unfolding i by (simp add: j) (simp add: eF_def)
qed


section \<open>Hosts racing on one boundary event\<close>

lemma handler_boundaryOf:
  "etcdEventHandler e ev w =
     (case boundaryOf ev of
        None \<Rightarrow> (Return (), w)
      | Some (b, v) \<Rightarrow> transition e v (sourceState b) (targetState b) (smbServer b) w)"
  by (auto simp: etcdEventHandler_transition boundaryOf_def)

lemma CompareAndPut_count:
  "CompareAndPut e k a b w = (res, w1) \<Longrightarrow> smbCount w1 = smbCount w"
proof (cases "client e")
  case None
  then show "CompareAndPut e k a b w = (res, w1) \<Longrightarrow> smbCount w1 = smbCount w"
    by (auto simp: CompareAndPut_def)
next
  case (Some c)
  from CompareAndPut_step [OF Some, of k a b w]
  show "CompareAndPut e k a b w = (res, w1) \<Longrightarrow> smbCount w1 = smbCount w"
    by (auto simp: smbCount_def casCall_def)
qed

lemma CompareAndPut_rpcErrs:
  "CompareAndPut e k a b w = (res, w1) \<Longrightarrow> rpcErrs w = [] \<Longrightarrow>
     rpcErrs w1 = [] \<and>
     (client e \<noteq> None \<longrightarrow> res = Return (map_of (kvs w) k = Some a))"
  by (auto simp: CompareAndPut_def commit_def rpc_def split: option.splits if_splits)

lemma smbServer_effect:
  "smbServer b v w = (ok, w1) \<Longrightarrow>
     kvs w1 = kvs w \<and> rpcErrs w1 = rpcErrs w \<and> smbCount w1 = Suc (smbCount w)"
  by (cases b) (auto simp: startSMBServer_def stopSMBServer_def smbCount_def)

lemma source_target [simp]:
  "sourceState b \<noteq> volStateIntermediate" "targetState b \<noteq> sourceState b"
  "volStateError \<noteq> sourceState b" "volStateIntermediate \<noteq> sourceState b"
  by (cases b; simp add: states_distinct [symmetric])+


lemma CompareAndPut_returns:
  "client e \<noteq> None \<Longrightarrow> CompareAndPut e k a b w = (res, w1) \<Longrightarrow> res \<noteq> Panic"
  by (auto simp: CompareAndPut_def split: prod.splits option.splits)

lemma hostStep_props:
  assumes s: "hostStep b v e pc w = (pc', w')" and cl: "client e \<noteq> None"
  shows "(won pc \<longrightarrow> won pc')"
    and "(\<not> won pc \<and> won pc' \<longrightarrow> map_of (kvs w) (etcdPrefixState @ v) = Some (sourceState b))"
    and "(won pc' \<longrightarrow> map_of (kvs w') (etcdPrefixState @ v) \<noteq> Some (sourceState b)
                       \<or> (kvs w' = kvs w \<and> won pc))"
    and "(\<not> won pc' \<longrightarrow> kvs w' = kvs w)"
    and "(served pc \<longrightarrow> served pc')"
    and "smbCount w' = smbCount w + (if \<not> served pc \<and> served pc' then 1 else 0)"
    and "(\<not> served pc \<and> served pc' \<longrightarrow> won pc)"
    and "(served pc' \<longrightarrow> won pc')"
proof -
  let ?k = "etcdPrefixState @ v"
  consider "pc = Claim" | "pc = Serve" | "pc = Settle" | "pc = Park"
    | "pc = Lost \<or> pc = Finished \<or> pc = Crashed"
    by (cases pc) auto
  then have "(won pc \<longrightarrow> won pc')
    \<and> (\<not> won pc \<and> won pc' \<longrightarrow> map_of (kvs w) ?k = Some (sourceState b))
    \<and> (won pc' \<longrightarrow> map_of (kvs w') ?k \<noteq> Some (sourceState b) \<or> (kvs w' = kvs w \<and> won pc))
    \<and> (\<not> won pc' \<longrightarrow> kvs w' = kvs w)
    \<and> (served pc \<longrightarrow> served pc')
    \<and> smbCount w' = smbCount w + (if \<not> served pc \<and> served pc' then 1 else 0)
    \<and> (\<not> served pc \<and> served pc' \<longrightarrow> won pc)
    \<and> (served pc' \<longrightarrow> won pc')"
  proof cases
    case 1
    obtain r w1 where c: "CompareAndPut e ?k (sourceState b) volStateIntermediate w = (r, w1)"
      by (cases "CompareAndPut e ?k (sourceState b) volStateIntermediate w")
    from CompareAndPut_effect [OF c] CompareAndPut_count [OF c] CompareAndPut_returns [OF cl c] s 1 c
    show ?thesis
      by (cases r) (auto simp: update_conv' split: if_splits)
  next
    case 2
    obtain ok w1 where c: "smbServer b v w = (ok, w1)" by (cases "smbServer b v w")
    from smbServer_effect [OF c] s 2 c show ?thesis by (auto split: if_splits)
  next
    case 3
    obtain r w1 where c: "CompareAndPut e ?k volStateIntermediate (targetState b) w = (r, w1)"
      by (cases "CompareAndPut e ?k volStateIntermediate (targetState b) w")
    from CompareAndPut_effect [OF c] CompareAndPut_count [OF c] CompareAndPut_returns [OF cl c] s 3 c
    show ?thesis
      by (cases r) (auto simp: update_conv' split: if_splits)
  next
    case 4
    obtain r w1 where c: "CompareAndPut e ?k volStateIntermediate volStateError w = (r, w1)"
      by (cases "CompareAndPut e ?k volStateIntermediate volStateError w")
    from CompareAndPut_effect [OF c] CompareAndPut_count [OF c] CompareAndPut_returns [OF cl c] s 4 c
    show ?thesis
      by (cases r) (auto simp: update_conv' split: if_splits)
  next
    case 5
    with s show ?thesis by auto
  qed
  then show "(won pc \<longrightarrow> won pc')"
    and "(\<not> won pc \<and> won pc' \<longrightarrow> map_of (kvs w) (etcdPrefixState @ v) = Some (sourceState b))"
    and "(won pc' \<longrightarrow> map_of (kvs w') (etcdPrefixState @ v) \<noteq> Some (sourceState b)
                       \<or> (kvs w' = kvs w \<and> won pc))"
    and "(\<not> won pc' \<longrightarrow> kvs w' = kvs w)"
    and "(served pc \<longrightarrow> served pc')"
    and "smbCount w' = smbCount w + (if \<not> served pc \<and> served pc' then 1 else 0)"
    and "(\<not> served pc \<and> served pc' \<longrightarrow> won pc)"
    and "(served pc' \<longrightarrow> won pc')"
    by blast+
qed

lemma hostStep_live:
  assumes s: "hostStep b v e pc w = (pc', w')" and ok: "rpcErrs w = []" and cl: "client e \<noteq> None"
  shows "rpcErrs w' = []"
    and "pc \<noteq> Crashed \<longrightarrow> pc' \<noteq> Crashed"
    and "pc = Claim \<longrightarrow> won pc' = (map_of (kvs w) (etcdPrefixState @ v) = Some (sourceState b))"
    and "pc' = Claim \<longrightarrow> pc = Claim \<and> False"
proof -
  let ?k = "etcdPrefixState @ v"
  consider "pc = Claim" | "pc = Serve" | "pc = Settle" | "pc = Park"
    | "pc = Lost \<or> pc = Finished \<or> pc = Crashed"
    by (cases pc) auto
  then have "rpcErrs w' = [] \<and> (pc \<noteq> Crashed \<longrightarrow> pc' \<noteq> Crashed)
     \<and> (pc = Claim \<longrightarrow> won pc' = (map_of (kvs w) ?k = Some (sourceState b)))
     \<and> pc' \<noteq> Claim"
  proof cases
    case 1
    obtain r w1 where c: "CompareAndPut e ?k (sourceState b) volStateIntermediate w = (r, w1)"
      by (cases "CompareAndPut e ?k (sourceState b) volStateIntermediate w")
    from CompareAndPut_rpcErrs [OF c ok] cl s 1 c show ?thesis by (auto split: if_splits)
  next
    case 2
    obtain ok' w1 where c: "smbServer b v w = (ok', w1)" by (cases "smbServer b v w")
    from smbServer_effect [OF c] s 2 c ok show ?thesis by (auto split: if_splits)
  next
    case 3
    obtain r w1 where c: "CompareAndPut e ?k volStateIntermediate (targetState b) w = (r, w1)"
      by (cases "CompareAndPut e ?k volStateIntermediate (targetState b) w")
    from CompareAndPut_rpcErrs [OF c ok] cl s 3 c show ?thesis by (auto split: if_splits)
  next
    case 4
    obtain r w1 where c: "CompareAndPut e ?k volStateIntermediate volStateError w = (r, w1)"
      by (cases "CompareAndPut e ?k volStateIntermediate volStateError w")
    from CompareAndPut_rpcErrs [OF c ok] cl s 4 c show ?thesis by (auto split: if_splits)
  next
    case 5
    with s ok show ?thesis by auto
  qed
  then show "rpcErrs w' = []"
    and "pc \<noteq> Crashed \<longrightarrow> pc' \<noteq> Crashed"
    and "pc = Claim \<longrightarrow> won pc' = (map_of (kvs w) (etcdPrefixState @ v) = Some (sourceState b))"
    and "pc' = Claim \<longrightarrow> pc = Claim \<and> False"
    by blast+
qed


lemma served_won: "served pc \<Longrightarrow> won pc"
  by (cases pc) auto

lemma raceInv_step:
  assumes inv: "raceInv b v n (hs, w)" and i: "i < length hs"
    and s: "hostStep b v (fst (hs ! i)) (snd (hs ! i)) w = (pc', w')"
  shows "raceInv b v n (hs[i := (fst (hs ! i), pc')], w')"
proof -
  let ?k = "etcdPrefixState @ v"
  let ?new = "hs[i := (fst (hs ! i), pc')]"
  from inv have cl: "\<forall>i<length hs. client (fst (hs ! i)) \<noteq> None"
    and uq: "\<And>x y. x < length hs \<Longrightarrow> y < length hs \<Longrightarrow> won (snd (hs ! x)) \<Longrightarrow> won (snd (hs ! y)) \<Longrightarrow> x = y"
    and st: "\<And>x. x < length hs \<Longrightarrow> won (snd (hs ! x)) \<Longrightarrow> map_of (kvs w) ?k \<noteq> Some (sourceState b)"
    and ct: "smbCount w = n + (if \<exists>i<length hs. served (snd (hs ! i)) then 1 else 0)"
    by (auto simp: raceInv_def)
  from cl i have ci: "client (fst (hs ! i)) \<noteq> None" by simp
  note p = hostStep_props [OF s ci]
  have nth: "\<And>x. x < length hs \<Longrightarrow> ?new ! x = (if x = i then (fst (hs ! i), pc') else hs ! x)"
    by (simp add: nth_list_update)
  have c1: "\<forall>x<length ?new. client (fst (?new ! x)) \<noteq> None"
    using cl by (simp add: nth)
  have c2: "\<forall>x<length ?new. \<forall>y<length ?new. won (snd (?new ! x)) \<longrightarrow> won (snd (?new ! y)) \<longrightarrow> x = y"
  proof (intro allI impI)
    fix x y
    assume x: "x < length ?new" and y: "y < length ?new"
      and wx: "won (snd (?new ! x))" and wy: "won (snd (?new ! y))"
    show "x = y"
    proof (cases "won (snd (hs ! i))")
      case True
      have "won (snd (hs ! x))" using wx x True by (simp add: nth split: if_splits)
      moreover have "won (snd (hs ! y))" using wy y True by (simp add: nth split: if_splits)
      ultimately show ?thesis using uq x y by simp
    next
      case False
      show ?thesis
      proof (cases "won pc'")
        case True
        with False p(2) have src: "map_of (kvs w) ?k = Some (sourceState b)" by simp
        have "x = i" using wx x st src by (auto simp: nth split: if_splits)
        moreover have "y = i" using wy y st src by (auto simp: nth split: if_splits)
        ultimately show ?thesis by simp
      next
        case nw: False
        have "won (snd (hs ! x))" using wx x nw by (simp add: nth split: if_splits)
        moreover have "won (snd (hs ! y))" using wy y nw by (simp add: nth split: if_splits)
        ultimately show ?thesis using uq x y by simp
      qed
    qed
  qed
  have c3: "(\<exists>x<length ?new. won (snd (?new ! x))) \<longrightarrow> map_of (kvs w') ?k \<noteq> Some (sourceState b)"
  proof
    assume "\<exists>x<length ?new. won (snd (?new ! x))"
    then obtain x where x: "x < length hs" and wx: "won (snd (?new ! x))" by auto
    show "map_of (kvs w') ?k \<noteq> Some (sourceState b)"
    proof (cases "won pc'")
      case True
      with p(3) st [OF i] show ?thesis by auto
    next
      case False
      with p(4) have k: "kvs w' = kvs w" by simp
      from wx x False have "x \<noteq> i" "won (snd (hs ! x))" by (auto simp: nth split: if_splits)
      with st [OF x] k show ?thesis by simp
    qed
  qed
  have c4: "smbCount w' = n + (if \<exists>x<length ?new. served (snd (?new ! x)) then 1 else 0)"
  proof (cases "\<not> served (snd (hs ! i)) \<and> served pc'")
    case True
    with p(7) have wi: "won (snd (hs ! i))" by simp
    have none: "\<not> (\<exists>x<length hs. served (snd (hs ! x)))"
    proof
      assume "\<exists>x<length hs. served (snd (hs ! x))"
      then obtain x where x: "x < length hs" "served (snd (hs ! x))" by auto
      with uq [OF x(1) i served_won [OF x(2)] wi] True show False by simp
    qed
    have some: "\<exists>x<length ?new. served (snd (?new ! x))"
      using i True by (intro exI [of _ i]) (simp add: nth)
    from p(6) True ct none some show ?thesis by simp
  next
    case False
    have same: "(\<exists>x<length ?new. served (snd (?new ! x))) = (\<exists>x<length hs. served (snd (hs ! x)))"
    proof
      assume "\<exists>x<length ?new. served (snd (?new ! x))"
      then obtain x where x: "x < length hs" "served (snd (?new ! x))" by auto
      with False have "served (snd (hs ! x))" by (auto simp: nth split: if_splits)
      with x show "\<exists>x<length hs. served (snd (hs ! x))" by auto
    next
      assume "\<exists>x<length hs. served (snd (hs ! x))"
      then obtain x where x: "x < length hs" "served (snd (hs ! x))" by auto
      with p(5) have "served (snd (?new ! x))" by (auto simp: nth)
      with x show "\<exists>x<length ?new. served (snd (?new ! x))" by auto
    qed
    from p(6) False ct same show ?thesis by simp
  qed
  from c1 c2 c3 c4 show ?thesis by (simp add: raceInv_def)
qed

lemma raceInv_interleave:
  "raceInv b v n c \<Longrightarrow> raceInv b v n (interleave b v sch c)"
proof (induction sch arbitrary: c)
  case Nil
  then show ?case by simp
next
  case (Cons i sch)
  obtain hs w where c: "c = (hs, w)" by (cases c)
  show ?case
  proof (cases "i < length hs")
    case False
    with Cons c show ?thesis by simp
  next
    case True
    obtain pc' w' where s: "hostStep b v (fst (hs ! i)) (snd (hs ! i)) w = (pc', w')"
      by (cases "hostStep b v (fst (hs ! i)) (snd (hs ! i)) w")
    from raceInv_step [OF Cons.prems [unfolded c] True s]
    have "raceInv b v n (interleave b v sch (hs[i := (fst (hs ! i), pc')], w'))"
      by (rule Cons.IH)
    with True s c show ?thesis by simp
  qed
qed


lemma raceLive_step:
  assumes inv: "raceInv b v n (hs, w)" and live: "raceLive b v (hs, w)" and i: "i < length hs"
    and s: "hostStep b v (fst (hs ! i)) (snd (hs ! i)) w = (pc', w')"
  shows "raceLive b v (hs[i := (fst (hs ! i), pc')], w')"
proof -
  let ?k = "etcdPrefixState @ v"
  let ?new = "hs[i := (fst (hs ! i), pc')]"
  from inv i have ci: "client (fst (hs ! i)) \<noteq> None" by (simp add: raceInv_def)
  from live have ok: "rpcErrs w = []"
    and nc: "\<forall>i<length hs. snd (hs ! i) \<noteq> Crashed"
    and dj: "((\<forall>i<length hs. snd (hs ! i) = Claim) \<and> map_of (kvs w) ?k = Some (sourceState b)) \<or>
         (\<exists>i<length hs. won (snd (hs ! i)))"
    by (auto simp: raceLive_def)
  note l = hostStep_live [OF s ok ci]
  note p = hostStep_props [OF s ci]
  have nth: "\<And>x. x < length hs \<Longrightarrow> ?new ! x = (if x = i then (fst (hs ! i), pc') else hs ! x)"
    by (simp add: nth_list_update)
  have c2: "\<forall>x<length ?new. snd (?new ! x) \<noteq> Crashed"
    using nc l(2) i by (simp add: nth)
  have "\<exists>x<length ?new. won (snd (?new ! x))"
  proof -
    from dj show ?thesis
    proof
      assume a: "(\<forall>i<length hs. snd (hs ! i) = Claim) \<and> map_of (kvs w) ?k = Some (sourceState b)"
      with i l(3) have "won pc'" by simp
      with i show ?thesis by (intro exI [of _ i]) (simp add: nth)
    next
      assume "\<exists>i<length hs. won (snd (hs ! i))"
      then obtain x where x: "x < length hs" "won (snd (hs ! x))" by auto
      with p(1) have "won (snd (?new ! x))" by (auto simp: nth)
      with x show ?thesis by auto
    qed
  qed
  with l(1) c2 show ?thesis by (simp add: raceLive_def)
qed

lemma race_interleave:
  "raceInv b v n c \<Longrightarrow> raceLive b v c \<Longrightarrow> raceLive b v (interleave b v sch c)"
proof (induction sch arbitrary: c)
  case Nil
  then show ?case by simp
next
  case (Cons i sch)
  obtain hs w where c: "c = (hs, w)" by (cases c)
  show ?case
  proof (cases "i < length hs")
    case False
    with Cons c show ?thesis by simp
  next
    case True
    obtain pc' w' where s: "hostStep b v (fst (hs ! i)) (snd (hs ! i)) w = (pc', w')"
      by (cases "hostStep b v (fst (hs ! i)) (snd (hs ! i)) w")
    from Cons.prems have a: "raceInv b v n (hs, w)" "raceLive b v (hs, w)" by (simp_all add: c)
    from Cons.IH [OF raceInv_step [OF a(1) True s] raceLive_step [OF a True s]]
    show ?thesis using True s c by simp
  qed
qed

lemma interleave_length: "length (fst (interleave b v sch c)) = length (fst c)"
proof (induction sch arbitrary: c)
  case Nil
  show ?case by simp
next
  case (Cons i sch)
  obtain hs w where c: "c = (hs, w)" by (cases c)
  show ?case using Cons [of "(hs, w)"] Cons
    by (auto simp: c split: prod.splits)
qed

lemma racers_inv:
  assumes "\<forall>e\<in>set es. client e \<noteq> None"
  shows "raceInv b v (smbCount w) (map (\<lambda>e. (e, Claim)) es, w)"
  using assms by (auto simp: raceInv_def)

lemma racers_live:
  assumes "rpcErrs w = []" "map_of (kvs w) (etcdPrefixState @ v) = Some (sourceState b)"
  shows "raceLive b v (map (\<lambda>e. (e, Claim)) es, w)"
  using assms by (auto simp: raceLive_def)

lemma won_final: "won pc \<Longrightarrow> final pc \<Longrightarrow> pc = Finished"
  by (cases pc) auto

lemma lost_final: "\<not> won pc \<Longrightarrow> final pc \<Longrightarrow> pc \<noteq> Crashed \<Longrightarrow> pc = Lost"
  by (cases pc) auto

lemma host_alone:
  "snd (interleave b v [0, 0, 0, 0] ([(e, Claim)], w)) =
     snd (transition e v (sourceState b) (targetState b) (smbServer b) w)"
proof -
  let ?k = "etcdPrefixState @ v"
  obtain r1 w1 where c1: "CompareAndPut e ?k (sourceState b) volStateIntermediate w = (r1, w1)"
    by (cases "CompareAndPut e ?k (sourceState b) volStateIntermediate w")
  show ?thesis
  proof (cases "r1 = Return True")
    case False
    then show ?thesis using c1
      by (cases r1) (auto simp: transition_def)
  next
    case True
    obtain ok w2 where c2: "smbServer b v w1 = (ok, w2)" by (cases "smbServer b v w1")
    show ?thesis
    proof (cases ok)
      case False
      obtain r3 w3 where c3: "CompareAndPut e ?k volStateIntermediate volStateError w2 = (r3, w3)"
        by (cases "CompareAndPut e ?k volStateIntermediate volStateError w2")
      show ?thesis using c1 True c2 False c3
        by (cases r3) (auto simp: transition_def settle_def CompareAndPut_ignored_def)
    next
      case ok: True
      obtain r3 w3 where c3: "CompareAndPut e ?k volStateIntermediate (targetState b) w2 = (r3, w3)"
        by (cases "CompareAndPut e ?k volStateIntermediate (targetState b) w2")
      show ?thesis
      proof (cases "r3 = Return False")
        case False
        then show ?thesis using c1 True c2 ok c3
          by (cases r3) (auto simp: transition_def settle_def)
      next
        case True
        obtain r4 w4 where c4: "CompareAndPut e ?k volStateIntermediate volStateError w3 = (r4, w4)"
          by (cases "CompareAndPut e ?k volStateIntermediate volStateError w3")
        show ?thesis using c1 \<open>r1 = Return True\<close> c2 ok c3 True c4
          by (cases r4) (auto simp: transition_def settle_def CompareAndPut_ignored_def)
      qed
    qed
  qed
qed


lemma race_outcome:
  assumes cl: "\<forall>e\<in>set es. client e \<noteq> None"
  shows "(case interleave b v sch (map (\<lambda>e. (e, Claim)) es, w) of
       (hs, w') \<Rightarrow>
         (\<forall>i<length hs. \<forall>j<length hs. won (snd (hs ! i)) \<longrightarrow> won (snd (hs ! j)) \<longrightarrow> i = j) \<and>
         smbCount w' \<le> smbCount w + 1 \<and>
         (es \<noteq> [] \<and> rpcErrs w = [] \<and>
          map_of (kvs w) (etcdPrefixState @ v) = Some (sourceState b) \<and>
          list_all (\<lambda>h. final (snd h)) hs \<longrightarrow>
            (\<exists>i<length hs. snd (hs ! i) = Finished \<and>
                (\<forall>j<length hs. j \<noteq> i \<longrightarrow> snd (hs ! j) = Lost)) \<and>
            smbCount w' = smbCount w + 1))"
proof -
  let ?c0 = "(map (\<lambda>e. (e, Claim)) es, w)"
  obtain hs w' where c: "interleave b v sch ?c0 = (hs, w')" by (cases "interleave b v sch ?c0")
  have len: "length hs = length es" using interleave_length [of b v sch ?c0] c by simp
  have inv0: "raceInv b v (smbCount w) ?c0" by (rule racers_inv [OF cl])
  from raceInv_interleave [OF inv0, of sch] c
  have inv: "raceInv b v (smbCount w) (hs, w')" by simp
  then have uq: "\<forall>i<length hs. \<forall>j<length hs. won (snd (hs ! i)) \<longrightarrow> won (snd (hs ! j)) \<longrightarrow> i = j"
    and ct: "smbCount w' = smbCount w + (if \<exists>i<length hs. served (snd (hs ! i)) then 1 else 0)"
    by (auto simp: raceInv_def)
  have le: "smbCount w' \<le> smbCount w + 1" using ct by simp
  have ex: "(\<exists>i<length hs. snd (hs ! i) = Finished \<and>
                (\<forall>j<length hs. j \<noteq> i \<longrightarrow> snd (hs ! j) = Lost)) \<and>
            smbCount w' = smbCount w + 1"
    if ne: "es \<noteq> []" and ok: "rpcErrs w = []"
      and src: "map_of (kvs w) (etcdPrefixState @ v) = Some (sourceState b)"
      and fin: "list_all (\<lambda>h. final (snd h)) hs"
  proof -
    have "raceLive b v ?c0" by (rule racers_live [OF ok src])
    from race_interleave [OF inv0 this, of sch] c
    have live: "raceLive b v (hs, w')" by simp
    from fin have f: "\<And>x. x < length hs \<Longrightarrow> final (snd (hs ! x))"
      by (simp add: list_all_length)
    from ne len have "0 < length hs" by simp
    with f [of 0] have "\<not> (\<forall>i<length hs. snd (hs ! i) = Claim)" by auto
    with live obtain i where i: "i < length hs" "won (snd (hs ! i))"
      and nc: "\<forall>i<length hs. snd (hs ! i) \<noteq> Crashed"
      by (auto simp: raceLive_def)
    have fi: "snd (hs ! i) = Finished" using won_final [OF i(2) f [OF i(1)]] .
    have others: "\<forall>j<length hs. j \<noteq> i \<longrightarrow> snd (hs ! j) = Lost"
    proof (intro allI impI)
      fix j assume j: "j < length hs" "j \<noteq> i"
      with uq i have "\<not> won (snd (hs ! j))" by auto
      from lost_final [OF this f [OF j(1)]] nc j(1) show "snd (hs ! j) = Lost" by simp
    qed
    have "\<exists>i<length hs. served (snd (hs ! i))" using i(1) fi by (intro exI [of _ i]) simp
    with ct have "smbCount w' = smbCount w + 1" by simp
    with i(1) fi others show ?thesis by blast
  qed
  show ?thesis unfolding c using uq le ex by simp
qed

lemma race_error_sample:
  "interleave FirstRef ''v1'' [0, 1] ([(e0, Claim), (hostB, Claim)], worldE) = c \<Longrightarrow>
     map snd (fst c) = [Lost, Lost] \<and> smbCount (snd c) = 0"
  by (auto simp: e0_def hostB_def worldE_def world0_def CompareAndPut_def commit_def rpc_def emit_def
      startSMBServer_def etcdPrefixState_def volStateReady_def volStateIntermediate_def
      volStateMounted_def smbCount_def)


lemma hostStep_rank: "hostStep b v e pc w = (pc', w') \<Longrightarrow> rank pc' \<le> rank pc - 1"
  by (cases pc) (auto split: prod.splits outcome.splits if_splits)

lemma rank_final: "rank pc = 0 \<longleftrightarrow> final pc"
  by (cases pc) auto

lemma interleave_rank:
  "i < length (fst c) \<Longrightarrow>
     rank (snd (fst (interleave b v sch c) ! i)) \<le> rank (snd (fst c ! i)) - count_list sch i"
proof (induction sch arbitrary: c)
  case Nil
  show ?case by simp
next
  case (Cons x sch)
  obtain hs w where c: "c = (hs, w)" by (cases c)
  from Cons.prems c have i: "i < length hs" by simp
  show ?case
  proof (cases "x < length hs")
    case False
    with i have "x \<noteq> i" by auto
    with Cons.IH [of "(hs, w)"] i False c show ?thesis by simp
  next
    case True
    obtain pc' w' where s: "hostStep b v (fst (hs ! x)) (snd (hs ! x)) w = (pc', w')"
      by (cases "hostStep b v (fst (hs ! x)) (snd (hs ! x)) w")
    let ?c1 = "(hs[x := (fst (hs ! x), pc')], w')"
    from i have "i < length (fst ?c1)" by simp
    from Cons.IH [OF this]
    have ih: "rank (snd (fst (interleave b v sch ?c1) ! i))
                \<le> rank (snd (hs[x := (fst (hs ! x), pc')] ! i)) - count_list sch i" by simp
    have st: "interleave b v (x # sch) c = interleave b v sch ?c1"
      using True s c by simp
    show ?thesis
    proof (cases "x = i")
      case True
      with hostStep_rank [OF s] i ih show ?thesis
        unfolding st by (simp add: c)
    next
      case False
      with i ih show ?thesis
        unfolding st by (simp add: c)
    qed
  qed
qed

lemma interleave_complete:
  assumes "\<forall>i<length (fst c). 4 \<le> count_list sch i"
  shows "list_all (\<lambda>h. final (snd h)) (fst (interleave b v sch c))"
proof -
  have "final (snd (fst (interleave b v sch c) ! i))" if i: "i < length (fst c)" for i
  proof -
    have "rank (snd (fst c ! i)) \<le> 4" by (cases "snd (fst c ! i)") auto
    with interleave_rank [OF i, of b v sch] assms i
    have "rank (snd (fst (interleave b v sch c) ! i)) = 0" by auto
    then show ?thesis by (simp add: rank_final)
  qed
  then show ?thesis
    by (simp add: list_all_length interleave_length)
qed


text \<open>C4, as amended. Let any number of hosts, each with its cached client, handle one
  boundary event of GREF:V against the one store, their requests interleaved in any
  order, while nothing else writes STATE:V (a host on its own takes the steps of
  \<open>etcdEventHandler\<close>). Then at most one host wins the claiming compare-and-put and at
  most one SMB call is made. Once every host has taken four steps, every host is at an
  end. If there is at least one host, no store request fails, STATE:V held the source
  state of the transition (Ready for 0 to 1, Mounted for 1 to 0) and every host has
  handled the event to its end, then exactly one host has made the SMB call and run the
  transition, and every other host has lost the claim and done nothing else.\<close>

theorem boundary_race:
  assumes ev: "boundaryOf ev = Some (b, v)" and cl: "\<forall>e\<in>set es. client e \<noteq> None"
  shows "(\<forall>e w. snd (interleave b v [0, 0, 0, 0] ([(e, Claim)], w)) = snd (etcdEventHandler e ev w)) \<and>
     (case interleave b v sch (map (\<lambda>e. (e, Claim)) es, w) of
       (hs, w') \<Rightarrow>
         (\<forall>i<length hs. \<forall>j<length hs. won (snd (hs ! i)) \<longrightarrow> won (snd (hs ! j)) \<longrightarrow> i = j) \<and>
         smbCount w' \<le> smbCount w + 1 \<and>
         ((\<forall>i<length es. 4 \<le> count_list sch i) \<longrightarrow> list_all (\<lambda>h. final (snd h)) hs) \<and>
         (es \<noteq> [] \<and> rpcErrs w = [] \<and>
          map_of (kvs w) (etcdPrefixState @ v) = Some (sourceState b) \<and>
          list_all (\<lambda>h. final (snd h)) hs \<longrightarrow>
            (\<exists>i<length hs. snd (hs ! i) = Finished \<and>
                (\<forall>j<length hs. j \<noteq> i \<longrightarrow> snd (hs ! j) = Lost)) \<and>
            smbCount w' = smbCount w + 1))"
proof -
  have alone: "\<forall>e w. snd (interleave b v [0, 0, 0, 0] ([(e, Claim)], w)) = snd (etcdEventHandler e ev w)"
    by (intro allI) (simp only: handler_boundaryOf ev option.case prod.case host_alone)
  have fin: "(\<forall>i<length es. 4 \<le> count_list sch i) \<longrightarrow>
      list_all (\<lambda>h. final (snd h)) (fst (interleave b v sch (map (\<lambda>e. (e, Claim)) es, w)))"
    using interleave_complete [of "(map (\<lambda>e. (e, Claim)) es, w)" sch b v] by simp
  from race_outcome [OF cl, where b = b and v = v and sch = sch and w = w] fin alone
  show ?thesis
    by (auto split: prod.splits)
qed

theorem boundary_race_witness:
  "list_all (\<lambda>h. final (snd h))
      (fst (interleave FirstRef ''v1'' [1, 0, 1, 1, 1, 0, 0, 0]
              (map (\<lambda>e. (e, Claim)) [e0, hostB], world0))) \<and>
   (\<exists>i<2. snd (fst (interleave FirstRef ''v1'' [1, 0, 1, 1, 1, 0, 0, 0]
                       (map (\<lambda>e. (e, Claim)) [e0, hostB], world0)) ! i) = Finished) \<and>
   smbCount (snd (interleave FirstRef ''v1'' [1, 0, 1, 1, 1, 0, 0, 0]
                    (map (\<lambda>e. (e, Claim)) [e0, hostB], world0)))
     = smbCount world0 + 1"
proof -
  let ?sch = "[1, 0, 1, 1, 1, 0, 0, 0] :: nat list"
  let ?c = "interleave FirstRef ''v1'' ?sch (map (\<lambda>e. (e, Claim)) [e0, hostB], world0)"
  obtain hs w' where c: "?c = (hs, w')" by (cases ?c)
  have ev: "boundaryOf ev01 = Some (FirstRef, ''v1'')"
    by (simp add: boundaryOf_def ev01_def etcdSingleRef_def etcdNoRef_def TrimPrefix_def
        HasPrefix_def etcdPrefixGRef_def)
  have cl: "\<forall>e\<in>set [e0, hostB]. client e \<noteq> None" by (simp add: e0_def hostB_def)
  have cnt: "\<forall>i<length [e0, hostB]. 4 \<le> count_list ?sch i"
    by (auto simp: less_Suc_eq)
  have len: "length hs = 2"
    using interleave_length [of FirstRef "''v1''" ?sch "(map (\<lambda>e. (e, Claim)) [e0, hostB], world0)"] c
    by simp
  have src: "map_of (kvs world0) (etcdPrefixState @ ''v1'') = Some (sourceState FirstRef)"
    by (simp add: world0_fields etcdPrefixState_def volStateReady_def)
  show ?thesis
    using boundary_race [OF ev cl, where sch = ?sch and w = world0] c cnt len src
    by (auto simp: world0_fields)
qed

lemma race_fail_sample:
  "interleave FirstRef ''v1'' [0, 1] ([(e0, Claim), (hostB, Claim)], worldFail) = c \<Longrightarrow>
     map snd (fst c) = [Lost, Lost] \<and> smbCount (snd c) = 0"
  by (auto simp: e0_def hostB_def worldFail_def world0_def CompareAndPut_def commit_def rpc_def emit_def
      startSMBServer_def etcdPrefixState_def volStateReady_def volStateIntermediate_def
      volStateMounted_def smbCount_def)

lemma lag_sample:
  "trace (snd (etcdWatcher hostB [ev01, ev10] (snd (etcdWatcher e0 [ev01, ev10] world0)))) =
     [casCall ''10.0.0.1:2379'' ''SVOLS_stat_v1'' ''Ready'' ''Intermediate'' (Replied True),
      StartSMB ''v1'' True,
      casCall ''10.0.0.1:2379'' ''SVOLS_stat_v1'' ''Intermediate'' ''Mounted'' (Replied True),
      casCall ''10.0.0.1:2379'' ''SVOLS_stat_v1'' ''Mounted'' ''Intermediate'' (Replied True),
      StopSMB ''v1'' True,
      casCall ''10.0.0.1:2379'' ''SVOLS_stat_v1'' ''Intermediate'' ''Ready'' (Replied True),
      casCall ''10.0.0.2:2379'' ''SVOLS_stat_v1'' ''Ready'' ''Intermediate'' (Replied True),
      StartSMB ''v1'' True,
      casCall ''10.0.0.2:2379'' ''SVOLS_stat_v1'' ''Intermediate'' ''Mounted'' (Replied True),
      casCall ''10.0.0.2:2379'' ''SVOLS_stat_v1'' ''Mounted'' ''Intermediate'' (Replied True),
      StopSMB ''v1'' True,
      casCall ''10.0.0.2:2379'' ''SVOLS_stat_v1'' ''Intermediate'' ''Ready'' (Replied True)]"
  by (simp add: etcdEventHandler_def ev01_def ev10_def e0_def hostB_def world0_def CompareAndPut_def
      CompareAndPut_ignored_def commit_def rpc_def emit_def startSMBServer_def stopSMBServer_def
      etcdPrefixState_def etcdPrefixGRef_def etcdSingleRef_def etcdNoRef_def TrimPrefix_def
      HasPrefix_def volStateReady_def volStateIntermediate_def volStateMounted_def
      volStateError_def casCall_def Let_def)


text \<open>C4 as stated fails, in three ways. With STATE:V in Error, two hosts handle the
  event that takes GREF:V from 0 to 1, each to its end, and neither makes the SMB call.
  With STATE:V Ready and the claiming request of each host failing, again neither does.
  And when one host's watcher has handled the events 0 to 1 and 1 to 0 before a second
  host's watcher handles them, the volume is Ready again when the second host handles the
  first event: both hosts win its claim and both start the SMB server.\<close>

theorem boundary_race_counterexample:
  "boundaryOf ev01 = Some (FirstRef, ''v1'') \<and>
   map snd (fst (interleave FirstRef ''v1'' [0, 1] ([(e0, Claim), (hostB, Claim)], worldE)))
     = [Lost, Lost] \<and>
   \<not> list_ex (\<lambda>h. served (snd h))
       (fst (interleave FirstRef ''v1'' [0, 1] ([(e0, Claim), (hostB, Claim)], worldE))) \<and>
   smbCount (snd (interleave FirstRef ''v1'' [0, 1] ([(e0, Claim), (hostB, Claim)], worldE))) = 0 \<and>
   map snd (fst (interleave FirstRef ''v1'' [0, 1] ([(e0, Claim), (hostB, Claim)], worldFail)))
     = [Lost, Lost] \<and>
   smbCount (snd (interleave FirstRef ''v1'' [0, 1] ([(e0, Claim), (hostB, Claim)], worldFail))) = 0 \<and>
   trace (snd (etcdWatcher hostB [ev01, ev10] (snd (etcdWatcher e0 [ev01, ev10] world0)))) =
     [casCall ''10.0.0.1:2379'' ''SVOLS_stat_v1'' ''Ready'' ''Intermediate'' (Replied True),
      StartSMB ''v1'' True,
      casCall ''10.0.0.1:2379'' ''SVOLS_stat_v1'' ''Intermediate'' ''Mounted'' (Replied True),
      casCall ''10.0.0.1:2379'' ''SVOLS_stat_v1'' ''Mounted'' ''Intermediate'' (Replied True),
      StopSMB ''v1'' True,
      casCall ''10.0.0.1:2379'' ''SVOLS_stat_v1'' ''Intermediate'' ''Ready'' (Replied True),
      casCall ''10.0.0.2:2379'' ''SVOLS_stat_v1'' ''Ready'' ''Intermediate'' (Replied True),
      StartSMB ''v1'' True,
      casCall ''10.0.0.2:2379'' ''SVOLS_stat_v1'' ''Intermediate'' ''Mounted'' (Replied True),
      casCall ''10.0.0.2:2379'' ''SVOLS_stat_v1'' ''Mounted'' ''Intermediate'' (Replied True),
      StopSMB ''v1'' True,
      casCall ''10.0.0.2:2379'' ''SVOLS_stat_v1'' ''Intermediate'' ''Ready'' (Replied True)]"
proof -
  let ?c = "interleave FirstRef ''v1'' [0, 1] ([(e0, Claim), (hostB, Claim)], worldE)"
  let ?d = "interleave FirstRef ''v1'' [0, 1] ([(e0, Claim), (hostB, Claim)], worldFail)"
  have ev: "boundaryOf ev01 = Some (FirstRef, ''v1'')"
    by (simp add: boundaryOf_def ev01_def etcdSingleRef_def etcdNoRef_def TrimPrefix_def
        HasPrefix_def etcdPrefixGRef_def)
  from race_error_sample [of ?c] have m: "map snd (fst ?c) = [Lost, Lost]" "smbCount (snd ?c) = 0"
    by simp_all
  from race_fail_sample [of ?d] have f: "map snd (fst ?d) = [Lost, Lost]" "smbCount (snd ?d) = 0"
    by simp_all
  have "\<not> list_ex served (map snd (fst ?c))" unfolding m by simp
  then have "\<not> list_ex (\<lambda>h. served (snd h)) (fst ?c)"
    by (simp add: list_ex_iff)
  with ev m f lag_sample show ?thesis by simp
qed

end
